theory Spec2Isabelle
  imports Main "HOL-Library.Word" "HOL-Library.Monad_Syntax"
begin

unbundle bit_operations_syntax

section \<open>Machine types and external constants\<close>

type_synonym u32 = "32 word"
type_synonym u64 = "64 word"
type_synonym byte = "8 word"

definition bytes_of :: "string \<Rightarrow> byte list" where
  "bytes_of s = map of_char s"

definition string_of :: "byte list \<Rightarrow> string" where
  "string_of bs = map (\<lambda>b. char_of (unat b)) bs"

definition c_str :: "string \<Rightarrow> string" where
  "c_str s = takeWhile (\<lambda>c. c \<noteq> CHR 0x00) s"

definition CONFIG_MICROBIT_LOG_CACHE_BLOCK_SIZE :: u32 where
  "CONFIG_MICROBIT_LOG_CACHE_BLOCK_SIZE = 256"

definition MICROBIT_LOG_JOURNAL_ENTRY_SIZE :: nat where
  "MICROBIT_LOG_JOURNAL_ENTRY_SIZE = 8"

definition CONFIG_MICROBIT_LOG_JOURNAL_PAGES :: u32 where
  "CONFIG_MICROBIT_LOG_JOURNAL_PAGES = 1"

definition CONFIG_MICROBIT_LOG_INVALID_CHAR_VALUE :: char where
  "CONFIG_MICROBIT_LOG_INVALID_CHAR_VALUE = CHR ''#''"

definition MICROBIT_LOG_VERSION :: string where
  "MICROBIT_LOG_VERSION = ''UBIT_LOG_FS_V_001'' @ [CHR 0x0A]"

definition sizeof_MicroBitLogMetaData :: nat where
  "sizeof_MicroBitLogMetaData = 18 + 11 + 11"

datatype TimeStampFormat = TimeStampNone | Milliseconds | Seconds | Minutes | Hours | Days

datatype retcode = DEVICE_OK | DEVICE_INVALID_STATE | DEVICE_NO_RESOURCES

record config =
  pageSize :: u32
  flashStart :: u32
  flashEnd :: u32
  header :: "byte list"
  journalEntryInit :: "byte list"
  timeStampValue :: "TimeStampFormat \<Rightarrow> int"

section \<open>Strings and numbers\<close>

partial_function (option) padString :: "string \<Rightarrow> nat \<Rightarrow> string option" where
  "padString s digits = (if length s \<noteq> digits then padString (''0'' @ s) digits else Some s)"

declare padString.simps [code]

definition hexdigit :: "nat \<Rightarrow> char" where
  "hexdigit d = (if d > 9 then char_of (of_char CHR ''A'' + d - 10) else char_of (of_char CHR ''0'' + d))"

definition writeNum :: "u32 \<Rightarrow> string" where
  "writeNum n = map (\<lambda>sh. hexdigit (unat (drop_bit sh n AND 0xf))) [28, 24, 20, 16, 12, 8, 4, 0]"

fun dec_digits :: "nat \<Rightarrow> string" where
  "dec_digits n = (if n < 10 then [char_of (of_char CHR ''0'' + n)]
                   else dec_digits (n div 10) @ [char_of (of_char CHR ''0'' + n mod 10)])"

declare dec_digits.simps [simp del]

definition ManagedString_int :: "int \<Rightarrow> string" where
  "ManagedString_int v = (if v < 0 then CHR ''-'' # dec_digits (nat (- v)) else dec_digits (nat v))"

definition c_div :: "int \<Rightarrow> int \<Rightarrow> int" where
  "c_div a b = sgn a * sgn b * (\<bar>a\<bar> div \<bar>b\<bar>)"

definition c_mod :: "int \<Rightarrow> int \<Rightarrow> int" where
  "c_mod a b = a - b * c_div a b"

definition isspace :: "byte \<Rightarrow> bool" where
  "isspace c \<longleftrightarrow> c = 0x20 \<or> (0x09 \<le> c \<and> c \<le> 0x0D)"

definition hexval :: "byte \<Rightarrow> nat option" where
  "hexval c =
     (if 0x30 \<le> c \<and> c \<le> 0x39 then Some (unat c - 0x30)
      else if 0x41 \<le> c \<and> c \<le> 0x46 then Some (unat c - 0x41 + 10)
      else if 0x61 \<le> c \<and> c \<le> 0x66 then Some (unat c - 0x61 + 10)
      else None)"

fun hex_accum :: "nat \<Rightarrow> byte list \<Rightarrow> nat" where
  "hex_accum acc [] = acc"
| "hex_accum acc (c # cs) = (case hexval c of None \<Rightarrow> acc | Some d \<Rightarrow> hex_accum (acc * 16 + d) cs)"

definition skip_0x :: "byte list \<Rightarrow> byte list" where
  "skip_0x s = (case s of
       a # b # c # rest \<Rightarrow> if a = 0x30 \<and> (b = 0x78 \<or> b = 0x58) \<and> hexval c \<noteq> None then c # rest else s
     | _ \<Rightarrow> s)"

definition strtoul16 :: "byte list \<Rightarrow> u32" where
  "strtoul16 s =
     (let s1 = dropWhile isspace s;
          neg = (case s1 of c # _ \<Rightarrow> c = 0x2D | [] \<Rightarrow> False);
          s2 = (case s1 of c # rest \<Rightarrow> if c = 0x2D \<or> c = 0x2B then rest else s1 | [] \<Rightarrow> s1);
          v = hex_accum 0 (skip_0x s2)
      in if v > 0xFFFFFFFF then 0xFFFFFFFF
         else if neg then - of_nat v else of_nat v)"

section \<open>cleanBuffer\<close>

definition ManagedString_of :: "string \<Rightarrow> nat \<Rightarrow> string" where
  "ManagedString_of s len = take len s"

definition cleanBuffer_step :: "string \<Rightarrow> nat \<Rightarrow> bool \<Rightarrow> nat \<Rightarrow> string \<Rightarrow> string" where
  "cleanBuffer_step s len removeSeparators i out =
     (let out1 =
        (if i + 2 < len \<and> s ! i = CHR ''-'' \<and> s ! (i + 1) = CHR ''-'' \<and> s ! (i + 2) = CHR ''>''
         then (let out0 = (if length out = 0 then ManagedString_of s len else out)
               in out0[i := CONFIG_MICROBIT_LOG_INVALID_CHAR_VALUE,
                       i + 1 := CONFIG_MICROBIT_LOG_INVALID_CHAR_VALUE,
                       i + 2 := CONFIG_MICROBIT_LOG_INVALID_CHAR_VALUE])
         else out)
      in if s ! i = CHR 0x09 \<or> (removeSeparators \<and> (s ! i = CHR '','' \<or> s ! i = CHR 0x0A))
         then (let out0 = (if length out1 = 0 then ManagedString_of s len else out1)
               in out0[i := CONFIG_MICROBIT_LOG_INVALID_CHAR_VALUE])
         else out1)"

definition cleanBuffer :: "string \<Rightarrow> nat \<Rightarrow> bool \<Rightarrow> string" where
  "cleanBuffer s len removeSeparators = fold (cleanBuffer_step s len removeSeparators) [0..<len] []"

section \<open>Flash and cache\<close>

datatype flash_op =
    FlashWrite u32 "byte list"
  | FlashErase u32
  | CacheWrite u32 "byte list"
  | CacheErase u32
  | CacheClear
  | SetConfiguration string u32 bool
  | Remount

definition program :: "(u32 \<Rightarrow> byte) \<Rightarrow> u32 \<Rightarrow> byte list \<Rightarrow> (u32 \<Rightarrow> byte)" where
  "program m a bs = (\<lambda>x. if unat (x - a) < length bs then m x AND bs ! unat (x - a) else m x)"

definition erase_page :: "u32 \<Rightarrow> (u32 \<Rightarrow> byte) \<Rightarrow> u32 \<Rightarrow> (u32 \<Rightarrow> byte)" where
  "erase_page ps m a = (\<lambda>x. if x div ps = a div ps then 0xFF else m x)"

definition read_bytes :: "(u32 \<Rightarrow> byte) \<Rightarrow> u32 \<Rightarrow> nat \<Rightarrow> byte list" where
  "read_bytes m a n = map (\<lambda>i. m (a + of_nat i)) [0..<n]"

definition containsOnly :: "byte list \<Rightarrow> byte \<Rightarrow> bool" where
  "containsOnly j v = list_all (\<lambda>b. b = v) (take MICROBIT_LOG_JOURNAL_ENTRY_SIZE j)"

section \<open>The logger state\<close>

record ColumnEntry =
  ce_key :: string
  ce_value :: string

record MicroBitLog =
  status_initialized :: bool
  status_row_started :: bool
  status_full :: bool
  journalPages :: u32
  journalHead :: u32
  startAddress :: u32
  journalStart :: u32
  dataStart :: u32
  dataEnd :: u32
  logEnd :: u32
  headingStart :: u32
  headingLength :: u32
  headingsChanged :: bool
  rowData :: "ColumnEntry list"
  timeStampFormat :: TimeStampFormat
  timeStampHeading :: string
  metaData :: "byte list"
  nvm :: "u32 \<Rightarrow> byte"
  ops :: "flash_op list"

definition flash_write :: "u32 \<Rightarrow> byte list \<Rightarrow> MicroBitLog \<Rightarrow> MicroBitLog" where
  "flash_write a bs st = st\<lparr>nvm := program (nvm st) a bs, ops := ops st @ [FlashWrite a bs]\<rparr>"

definition cache_write :: "u32 \<Rightarrow> byte list \<Rightarrow> MicroBitLog \<Rightarrow> MicroBitLog" where
  "cache_write a bs st = st\<lparr>nvm := program (nvm st) a bs, ops := ops st @ [CacheWrite a bs]\<rparr>"

definition flash_erase :: "config \<Rightarrow> u32 \<Rightarrow> MicroBitLog \<Rightarrow> MicroBitLog" where
  "flash_erase cfg a st = st\<lparr>nvm := erase_page (pageSize cfg) (nvm st) a, ops := ops st @ [FlashErase a]\<rparr>"

definition cache_erase :: "u32 \<Rightarrow> MicroBitLog \<Rightarrow> MicroBitLog" where
  "cache_erase a st = st\<lparr>ops := ops st @ [CacheErase a]\<rparr>"

definition cache_clear :: "MicroBitLog \<Rightarrow> MicroBitLog" where
  "cache_clear st = st\<lparr>ops := ops st @ [CacheClear]\<rparr>"

definition headingCount :: "MicroBitLog \<Rightarrow> nat" where
  "headingCount st = length (rowData st)"

definition constructed :: "(u32 \<Rightarrow> byte) \<Rightarrow> u32 \<Rightarrow> MicroBitLog" where
  "constructed m jp =
     \<lparr>status_initialized = False, status_row_started = False, status_full = False,
      journalPages = jp, journalHead = 0, startAddress = 0, journalStart = 0, dataStart = 0,
      dataEnd = 0, logEnd = 0, headingStart = 0, headingLength = 0, headingsChanged = False,
      rowData = [], timeStampFormat = TimeStampNone, timeStampHeading = [],
      metaData = replicate sizeof_MicroBitLogMetaData 0, nvm = m, ops = []\<rparr>"

section \<open>Mounting and formatting\<close>

definition isPresent :: "config \<Rightarrow> MicroBitLog \<Rightarrow> (bool \<times> MicroBitLog) option" where
  "isPresent cfg st =
     (if status_initialized st then Some (True, st)
      else if pageSize cfg = 0 then None
      else
        let hs = (of_nat (length (header cfg)) :: u32);
            sa = (if hs mod pageSize cfg = 0 then hs else (1 + hs div pageSize cfg) * pageSize cfg);
            raw = read_bytes (nvm st) sa (4 * (sizeof_MicroBitLogMetaData div 4));
            md = raw[17 := 0, 18 + 10 := 0, 18 + 11 + 10 := 0];
            ds = strtoul16 (take 11 (drop 18 md));
            le = strtoul16 (take 11 (drop (18 + 11) md));
            st1 = st\<lparr>startAddress := sa, metaData := md, dataStart := ds, logEnd := le,
                     journalStart := sa + pageSize cfg\<rparr>
        in Some (ds \<ge> sa + 2 * pageSize cfg \<and> ds < le \<and> le < flashEnd cfg
                   \<and> take 17 md = take 17 (bytes_of MICROBIT_LOG_VERSION), st1))"

partial_function (option) clear_erase :: "config \<Rightarrow> u32 \<Rightarrow> u32 \<Rightarrow> MicroBitLog \<Rightarrow> MicroBitLog option" where
  "clear_erase cfg lim p st =
     (if p \<le> lim then clear_erase cfg lim (p + pageSize cfg) (flash_erase cfg p st) else Some st)"

declare clear_erase.simps [code]

definition clear :: "config \<Rightarrow> bool \<Rightarrow> MicroBitLog \<Rightarrow> MicroBitLog option" where
  "clear cfg fullErase st0 =
     (if pageSize cfg = 0 then None
      else
        let hs = (of_nat (length (header cfg)) :: u32);
            sa = (if hs mod pageSize cfg = 0 then hs else (1 + hs div pageSize cfg) * pageSize cfg);
            js = sa + pageSize cfg;
            ds = js + CONFIG_MICROBIT_LOG_JOURNAL_PAGES * pageSize cfg;
            le = flashEnd cfg - pageSize cfg - 4;
            st1 = st0\<lparr>startAddress := sa, journalPages := CONFIG_MICROBIT_LOG_JOURNAL_PAGES,
                      journalStart := js, journalHead := js, dataStart := ds, dataEnd := ds,
                      logEnd := le, status_initialized := False, status_row_started := False,
                      status_full := False, headingsChanged := False, headingStart := 0,
                      headingLength := 0, rowData := []\<rparr>;
            st2 = cache_clear (flash_write le (replicate 4 0) st1)
        in do {
          st3 \<leftarrow> clear_erase cfg (if fullErase then le else ds) (flashStart cfg) st2;
          let st4 = flash_write (flashStart cfg) (take (4 * (length (header cfg) div 4)) (header cfg)) st3;
              md = bytes_of MICROBIT_LOG_VERSION
                   @ bytes_of (''0x'' @ writeNum ds) @ [0]
                   @ bytes_of (''0x'' @ writeNum le) @ [0];
              st5 = cache_write sa md (st4\<lparr>metaData := md\<rparr>);
              st6 = cache_write js (take MICROBIT_LOG_JOURNAL_ENTRY_SIZE (journalEntryInit cfg)) st5;
              st7 = st6\<lparr>ops := ops st6 @ [SetConfiguration ''MY_DATA.HTM''
                                      (flashEnd cfg - flashStart cfg - pageSize cfg) True, Remount]\<rparr>
          in Some (st7\<lparr>status_initialized := True\<rparr>)
        })"

partial_function (option) journalScan ::
    "(u32 \<Rightarrow> byte) \<Rightarrow> u32 \<Rightarrow> u32 \<Rightarrow> bool \<Rightarrow> u32 \<Rightarrow> u32 \<Rightarrow> (u32 \<times> u32) option" where
  "journalScan m ds a valid jh de =
     (if a < ds then
        (if containsOnly (read_bytes m a MICROBIT_LOG_JOURNAL_ENTRY_SIZE) 0xFF \<and> valid then Some (jh, de)
         else if \<not> containsOnly (read_bytes m a MICROBIT_LOG_JOURNAL_ENTRY_SIZE) 0x00
         then journalScan m ds (a + of_nat MICROBIT_LOG_JOURNAL_ENTRY_SIZE) True a
                (ds + strtoul16 (read_bytes m a MICROBIT_LOG_JOURNAL_ENTRY_SIZE))
         else journalScan m ds (a + of_nat MICROBIT_LOG_JOURNAL_ENTRY_SIZE) valid jh de)
      else Some (jh, de))"

declare journalScan.simps [code]

function dataScan :: "(u32 \<Rightarrow> byte) \<Rightarrow> u32 \<Rightarrow> u32 \<Rightarrow> u32" where
  "dataScan m le de = (if de < le then (if m de = 0xFF then de else dataScan m le (de + 1)) else de)"
  by pat_completeness auto
termination
proof (relation "measure (\<lambda>(m, le, de). unat le - unat de)")
  show "wf (measure (\<lambda>(m, le, de). unat le - unat de))" by simp
next
  fix m :: "u32 \<Rightarrow> byte" and le de :: u32
  assume "de < le"
  then have "unat le - unat (de + 1) < unat le - unat de" by unat_arith
  then show "((m, le, de + 1), (m, le, de)) \<in> measure (\<lambda>(m, le, de). unat le - unat de)"
    by simp
qed

partial_function (option) skipZeroes :: "(u32 \<Rightarrow> byte) \<Rightarrow> u32 \<Rightarrow> u32 option" where
  "skipZeroes m start = (if m start = 0 then skipZeroes m (start + 1) else Some start)"

declare skipZeroes.simps [code]

partial_function (option) findUnused :: "(u32 \<Rightarrow> byte) \<Rightarrow> u32 \<Rightarrow> u32 option" where
  "findUnused m e = (if m e \<noteq> 0xFF then findUnused m (e + 1) else Some e)"

declare findUnused.simps [code]

fun parseKeys :: "nat \<Rightarrow> byte list \<Rightarrow> string list" where
  "parseKeys 0 buf = []"
| "parseKeys (Suc n) buf =
     (let k = takeWhile (\<lambda>b. b \<noteq> 0) buf
      in string_of k # parseKeys n (drop (length k + 1) buf))"

definition mount :: "config \<Rightarrow> MicroBitLog \<Rightarrow> MicroBitLog option" where
  "mount cfg st = do {
     (jh, de) \<leftarrow> journalScan (nvm st) (dataStart st) (journalStart st) False
                   (journalStart st) (dataStart st);
     start \<leftarrow> skipZeroes (nvm st) (startAddress st + of_nat sizeof_MicroBitLogMetaData);
     end \<leftarrow> findUnused (nvm st) start;
     let st1 = st\<lparr>journalPages := (dataStart st - startAddress st) div pageSize cfg - 1,
                 journalHead := jh,
                 dataEnd := dataScan (nvm st) (logEnd st) de,
                 headingLength := end - start\<rparr>;
         headers = map (\<lambda>b. if b = 0x2C \<or> b = 0x0A then 0 else b)
                     (read_bytes (nvm st) start (unat (end - start)));
         count = length (filter (\<lambda>b. b = 0x2C \<or> b = 0x0A)
                     (read_bytes (nvm st) start (unat (end - start))));
         st2 = (if end - start > 0
                then st1\<lparr>headingStart := start,
                         rowData := map (\<lambda>k. \<lparr>ce_key = k, ce_value = []\<rparr>) (parseKeys count headers)\<rparr>
                else st1)
     in Some (st2\<lparr>status_initialized := True\<rparr>)
   }"

definition init :: "config \<Rightarrow> MicroBitLog \<Rightarrow> MicroBitLog option" where
  "init cfg st0 =
     (if status_initialized st0 then Some st0
      else do {
        (present, st) \<leftarrow> isPresent cfg st0;
        if present then mount cfg st else clear cfg False st
      })"

section \<open>Appending text\<close>

function logString_write :: "config \<Rightarrow> byte list \<Rightarrow> u32 \<Rightarrow> MicroBitLog \<Rightarrow> (u32 \<times> MicroBitLog) option" where
  "logString_write cfg data l st =
     (if l > 0 then
        (if pageSize cfg = 0 then None
         else
           let spaceOnPage = pageSize cfg - (dataEnd st mod pageSize cfg);
               lengthToWrite = min l spaceOnPage;
               st1 = (if spaceOnPage \<le> l \<and> dataEnd st + spaceOnPage < logEnd st
                      then flash_erase cfg (((dataEnd st div pageSize cfg) + 1) * pageSize cfg) st
                      else st);
               st2 = cache_write (dataEnd st1) (take (unat lengthToWrite) data) st1
           in logString_write cfg (drop (unat lengthToWrite) data) (l - lengthToWrite)
                (st2\<lparr>dataEnd := dataEnd st2 + lengthToWrite\<rparr>))
      else Some (l, st))"
  by pat_completeness auto
termination
proof (relation "measure (\<lambda>(cfg, data, l, st). unat l)")
  show "wf (measure (\<lambda>(cfg, data, l, st). unat l))" by simp
next
  fix cfg :: config and data :: "byte list" and l :: u32 and st :: MicroBitLog
    and sp lw :: u32 and st1 st2 :: MicroBitLog
  assume "0 < l" and "pageSize cfg \<noteq> 0" and "sp = pageSize cfg - dataEnd st mod pageSize cfg"
    and "lw = min l sp"
  then have "unat (l - lw) < unat l"
    by (metis (no_types, lifting) ext eq_iff_diff_eq_0 min.cobounded2
    min.commute min.strict_order_iff min_less_iff_disj sub_wrap
    word_le_less_eq word_less_nat_alt word_mod_less_divisor word_gt_0)
  then show "((cfg, drop (unat lw) data, l - lw, st2\<lparr>dataEnd := dataEnd st2 + lw\<rparr>), (cfg, data, l, st))
          \<in> measure (\<lambda>(cfg, data, l, st). unat l)"
    by simp
qed

declare logString_write.simps [simp del]

definition logString_journal :: "config \<Rightarrow> MicroBitLog \<Rightarrow> MicroBitLog" where
  "logString_journal cfg st =
     (let oldJournalHead = journalHead st;
          jh1 = journalHead st + of_nat MICROBIT_LOG_JOURNAL_ENTRY_SIZE;
          st1 = (if jh1 mod pageSize cfg = 0
                 then (let jh2 = (if jh1 = dataStart st then journalStart st else jh1)
                       in flash_erase cfg jh2 (cache_erase jh2 (st\<lparr>journalHead := jh2\<rparr>)))
                 else st\<lparr>journalHead := jh1\<rparr>);
          je = writeNum (((dataEnd st1 - dataStart st1) div CONFIG_MICROBIT_LOG_CACHE_BLOCK_SIZE)
                          * CONFIG_MICROBIT_LOG_CACHE_BLOCK_SIZE);
          st2 = cache_write (journalHead st1) (bytes_of je) st1
      in cache_write oldJournalHead (replicate MICROBIT_LOG_JOURNAL_ENTRY_SIZE 0) st2)"

definition logString :: "config \<Rightarrow> string \<Rightarrow> MicroBitLog \<Rightarrow> (retcode \<times> MicroBitLog) option" where
  "logString cfg s st0 = do {
     st \<leftarrow> init cfg st0;
     let oldDataEnd = dataEnd st;
         l = (of_nat (length (c_str s)) :: u32)
     in
     if l > logEnd st - dataEnd st then
       Some (DEVICE_NO_RESOURCES,
             if \<not> status_full st
             then (cache_write (logEnd st + 1) (bytes_of ''FUL'') st)\<lparr>status_full := True\<rparr>
             else st)
     else do {
       let cleaned = cleanBuffer (c_str s) (length (c_str s)) False;
       let data = (if length cleaned \<noteq> 0 then cleaned else c_str s);
       (l', st1) \<leftarrow> logString_write cfg (bytes_of data) l st;
       let st2 = (if dataEnd st1 div CONFIG_MICROBIT_LOG_CACHE_BLOCK_SIZE
                      \<noteq> oldDataEnd div CONFIG_MICROBIT_LOG_CACHE_BLOCK_SIZE
                  then logString_journal cfg st1 else st1);
       Some (if l' = 0 then DEVICE_OK else DEVICE_NO_RESOURCES, st2)
     }
   }"

definition logString_ManagedString :: "config \<Rightarrow> string \<Rightarrow> MicroBitLog \<Rightarrow> (retcode \<times> MicroBitLog) option" where
  "logString_ManagedString cfg s st = do {
     (r, st1) \<leftarrow> logString cfg s st;
     Some (DEVICE_OK, st1)
   }"

section \<open>Rows and headings\<close>

definition addHeading :: "string \<Rightarrow> string \<Rightarrow> MicroBitLog \<Rightarrow> MicroBitLog" where
  "addHeading key value st =
     (if list_ex (\<lambda>e. ce_key e = key) (rowData st) then st
      else st\<lparr>rowData := rowData st @ [\<lparr>ce_key = key, ce_value = value\<rparr>], headingsChanged := True\<rparr>)"

definition setTimeStamp :: "config \<Rightarrow> TimeStampFormat \<Rightarrow> MicroBitLog \<Rightarrow> MicroBitLog option" where
  "setTimeStamp cfg format st0 = do {
     st \<leftarrow> init cfg st0;
     let st1 = st\<lparr>timeStampFormat := format\<rparr> in
     (case format of
        TimeStampNone \<Rightarrow> Some st1
      | _ \<Rightarrow>
        let units = (case format of
                       Milliseconds \<Rightarrow> ''milliseconds''
                     | Seconds \<Rightarrow> ''seconds''
                     | Minutes \<Rightarrow> ''minutes''
                     | Hours \<Rightarrow> ''hours''
                     | Days \<Rightarrow> ''hours''
                     | TimeStampNone \<Rightarrow> []);
            st2 = st1\<lparr>timeStampHeading := ''Time ('' @ units @ '')''\<rparr>
        in Some (addHeading (timeStampHeading st2) [] st2))
   }"

definition beginRow_reset :: "MicroBitLog \<Rightarrow> MicroBitLog" where
  "beginRow_reset st =
     st\<lparr>rowData := map (\<lambda>e. e\<lparr>ce_value := []\<rparr>) (rowData st), status_row_started := True\<rparr>"

fun setValue :: "string \<Rightarrow> string \<Rightarrow> ColumnEntry list \<Rightarrow> (bool \<times> ColumnEntry list)" where
  "setValue key value [] = (False, [])"
| "setValue key value (e # es) =
     (if ce_key e = key then (True, e\<lparr>ce_value := value\<rparr> # es)
      else (let (added, es') = setValue key value es in (added, e # es')))"

definition logData :: "config \<Rightarrow> string \<Rightarrow> string \<Rightarrow> MicroBitLog \<Rightarrow> (retcode \<times> MicroBitLog) option" where
  "logData cfg key0 value0 st0 = do {
     st \<leftarrow> init cfg st0;
     st1 \<leftarrow> (if \<not> status_row_started st
             then do { st' \<leftarrow> init cfg st; Some (beginRow_reset st') }
             else Some st);
     let k = cleanBuffer key0 (length key0) True;
         v = cleanBuffer value0 (length value0) True;
         key = (if length k \<noteq> 0 then k else key0);
         value = (if length v \<noteq> 0 then v else value0);
         (added, rd) = setValue key value (rowData st1);
         st2 = st1\<lparr>rowData := rd\<rparr>
     in Some (DEVICE_OK, if \<not> added then addHeading key value st2 else st2)
   }"

definition timeStampString :: "int \<Rightarrow> u64 \<Rightarrow> string option" where
  "timeStampString fmt now =
     (if (word_of_int fmt :: u64) = 0 then None
      else
        let t = now div word_of_int fmt;
            billions0 = sint (ucast (t div 1000000000) :: 32 word);
            units0 = sint (ucast (t mod 1000000000) :: 32 word);
            fraction = (if fmt > 1 then c_mod units0 100 else 0);
            units = (if fmt > 1 then c_div units0 100 else units0);
            billions = (if fmt > 1 then c_div billions0 100 else billions0)
        in do {
          f \<leftarrow> padString (ManagedString_int fraction) 2;
          u \<leftarrow> (if billions \<noteq> 0 then padString (ManagedString_int units) 9
                else Some (ManagedString_int units));
          let s = (if billions \<noteq> 0 then ManagedString_int billions else []) @ u
          in Some (if fmt > 1 then s @ ''.'' @ f else s)
        })"

fun csvLine :: "string list \<Rightarrow> string" where
  "csvLine [] = []"
| "csvLine [x] = x"
| "csvLine (x # y # ys) = x @ '','' @ csvLine (y # ys)"

definition endRow_timestamp :: "config \<Rightarrow> u64 \<Rightarrow> MicroBitLog \<Rightarrow> MicroBitLog option" where
  "endRow_timestamp cfg now st =
     (if timeStampFormat st \<noteq> TimeStampNone
      then do {
        s \<leftarrow> timeStampString (timeStampValue cfg (timeStampFormat st)) now;
        (r, st') \<leftarrow> logData cfg (timeStampHeading st) s st;
        Some st'
      } else Some st)"

definition endRow_headings :: "config \<Rightarrow> MicroBitLog \<Rightarrow> MicroBitLog option" where
  "endRow_headings cfg st =
     (if headingsChanged st
      then do {
        let hs = (if headingStart st = 0
                  then startAddress st + of_nat sizeof_MicroBitLogMetaData
                  else headingStart st);
        let h = csvLine (map ce_key (rowData st)) @ [CHR 0x0A];
        let sa = cache_write hs (replicate (unat (headingLength st)) 0) (st\<lparr>headingStart := hs\<rparr>);
        let sb = cache_write (hs + headingLength st) (bytes_of h)
                   (sa\<lparr>headingStart := hs + headingLength st\<rparr>);
        (r, sc) \<leftarrow> logString_ManagedString cfg h sb;
        Some (sc\<lparr>headingsChanged := False\<rparr>)
      } else Some st)"

definition endRow_row :: "config \<Rightarrow> MicroBitLog \<Rightarrow> MicroBitLog option" where
  "endRow_row cfg st = do {
     let row = csvLine (map ce_value (rowData st)) @ [CHR 0x0A];
     let empty = list_all (\<lambda>e. length (ce_value e) = 0) (rowData st);
     if \<not> empty
     then do { (r, s') \<leftarrow> logString_ManagedString cfg row st; Some s' }
     else Some st
   }"

definition endRow :: "config \<Rightarrow> u64 \<Rightarrow> MicroBitLog \<Rightarrow> (retcode \<times> MicroBitLog) option" where
  "endRow cfg now st0 =
     (if \<not> status_row_started st0 then Some (DEVICE_INVALID_STATE, st0)
      else do {
        st \<leftarrow> init cfg st0;
        st1 \<leftarrow> endRow_timestamp cfg now st;
        st2 \<leftarrow> endRow_headings cfg st1;
        st3 \<leftarrow> endRow_row cfg st2;
        let st4 = st3\<lparr>status_row_started := False\<rparr>;
        Some (if status_full st4 then DEVICE_NO_RESOURCES else DEVICE_OK, st4)
      })"

definition beginRow :: "config \<Rightarrow> u64 \<Rightarrow> MicroBitLog \<Rightarrow> (retcode \<times> MicroBitLog) option" where
  "beginRow cfg now st0 = do {
     st \<leftarrow> init cfg st0;
     st1 \<leftarrow> (if status_row_started st
             then do { (r, s') \<leftarrow> endRow cfg now st; Some s' }
             else Some st);
     Some (DEVICE_OK, beginRow_reset st1)
   }"


section \<open>Auxiliary notions for the proofs\<close>

definition arrow_at :: "string \<Rightarrow> nat \<Rightarrow> bool" where
  "arrow_at s i \<longleftrightarrow> i + 2 < length s \<and> s ! i = CHR ''-'' \<and> s ! (i + 1) = CHR ''-'' \<and> s ! (i + 2) = CHR ''>''"

definition sep_at :: "string \<Rightarrow> bool \<Rightarrow> nat \<Rightarrow> bool" where
  "sep_at s rs i \<longleftrightarrow> i < length s \<and> (s ! i = CHR 0x09 \<or> (rs \<and> (s ! i = CHR '','' \<or> s ! i = CHR 0x0A)))"

definition needs_cleaning :: "string \<Rightarrow> bool \<Rightarrow> bool" where
  "needs_cleaning s rs \<longleftrightarrow> (\<exists>i < length s. arrow_at s i \<or> sep_at s rs i)"

definition marked :: "string \<Rightarrow> bool \<Rightarrow> nat \<Rightarrow> nat \<Rightarrow> bool" where
  "marked s rs k j \<longleftrightarrow> (\<exists>i < k. (arrow_at s i \<and> (j = i \<or> j = i + 1 \<or> j = i + 2)) \<or> (sep_at s rs i \<and> j = i))"

definition cleaned :: "string \<Rightarrow> bool \<Rightarrow> string" where
  "cleaned s rs = (let c = cleanBuffer s (length s) rs in if length c \<noteq> 0 then c else s)"


fun written_bytes :: "flash_op list \<Rightarrow> byte list" where
  "written_bytes [] = []"
| "written_bytes (CacheWrite a bs # os) = bs @ written_bytes os"
| "written_bytes (x # os) = written_bytes os"




section \<open>A concrete device and concrete runs\<close>

definition erased_flash :: "u32 \<Rightarrow> byte" where "erased_flash a = 0xFF"

definition centi_units :: "TimeStampFormat \<Rightarrow> int" where
  "centi_units f = (case f of TimeStampNone \<Rightarrow> 0 | Milliseconds \<Rightarrow> 1 | Seconds \<Rightarrow> 10
      | Minutes \<Rightarrow> 600 | Hours \<Rightarrow> 36000 | Days \<Rightarrow> 864000)"

definition example_config :: config where
  "example_config = \<lparr>pageSize = 4096, flashStart = 0, flashEnd = 0x20000, header = bytes_of ''<html>..'',
           journalEntryInit = bytes_of ''00000000'', timeStampValue = centi_units\<rparr>"

definition formatted :: "MicroBitLog option" where
  "formatted = clear example_config False (constructed erased_flash 1)"

definition run_full_then_short :: "(retcode \<times> bool \<times> retcode \<times> bool \<times> u32 \<times> byte list) option" where
  "run_full_then_short = do {
     st0 \<leftarrow> formatted;
     (r1, st1) \<leftarrow> logString example_config (replicate 114685 CHR ''x'') st0;
     (r2, st2) \<leftarrow> logString example_config ''ab'' st1;
     Some (r1, status_full st1, r2, status_full st2, dataEnd st2 - dataEnd st1,
           written_bytes (drop (length (ops st1)) (ops st2)))
   }"


definition run_log_when_full :: "(bool \<times> retcode) option" where
  "run_log_when_full = do {
     st0 \<leftarrow> formatted;
     (r1, st1) \<leftarrow> logString example_config (replicate 114685 CHR ''x'') st0;
     (r2, st2) \<leftarrow> logData example_config ''k'' ''v'' st1;
     Some (status_full st1, r2)
   }"

definition run_endRow_twice_when_full :: "(retcode \<times> bool \<times> retcode) option" where
  "run_endRow_twice_when_full = do {
     st0 \<leftarrow> formatted;
     (r1, st1) \<leftarrow> logString example_config (replicate 114685 CHR ''x'') st0;
     (r2, st2) \<leftarrow> beginRow example_config 0 st1;
     (r3, st3) \<leftarrow> endRow example_config 0 st2;
     (r4, st4) \<leftarrow> endRow example_config 1 st3;
     Some (r3, status_row_started st3, r4)
   }"

definition rowValue :: "string \<Rightarrow> MicroBitLog \<Rightarrow> string option" where
  "rowValue k st = map_of (map (\<lambda>e. (ce_key e, ce_value e)) (rowData st)) k"

definition two_digits :: "nat \<Rightarrow> string" where
  "two_digits n = [char_of (of_char CHR ''0'' + n div 10), char_of (of_char CHR ''0'' + n mod 10)]"

definition seconds_row :: "config \<Rightarrow> (retcode \<times> u32 \<times> byte list) option" where
  "seconds_row cfg = do {
     st0 \<leftarrow> clear cfg False (constructed erased_flash 1);
     st1 \<leftarrow> setTimeStamp cfg Seconds st0;
     (r2, st2) \<leftarrow> beginRow cfg 0 st1;
     (r3, st3) \<leftarrow> logData cfg ''v'' ''hi'' st2;
     (r4, st4) \<leftarrow> endRow cfg 12340 st3;
     Some (r4, dataEnd st4 - dataEnd st0, read_bytes (nvm st4) (dataEnd st0) 26)
   }"

fun data_writes_from :: "u32 \<Rightarrow> flash_op list \<Rightarrow> bool" where
  "data_writes_from a [] = True"
| "data_writes_from a (CacheWrite a' bs # os) = (a' = a \<and> data_writes_from (a + of_nat (length bs)) os)"
| "data_writes_from a (FlashErase p # os) = data_writes_from a os"
| "data_writes_from a (x # os) = False"

section \<open>Properties of cleanBuffer\<close>

lemma marked_Suc:
  "marked s rs (Suc k) j \<longleftrightarrow> marked s rs k j \<or> (arrow_at s k \<and> (j = k \<or> j = k + 1 \<or> j = k + 2)) \<or> (sep_at s rs k \<and> j = k)"
  by (auto simp: marked_def less_Suc_eq)


lemma cleanBuffer_step_cases:
  assumes "k < length s"
  shows "cleanBuffer_step s (length s) rs k out =
     (let out1 = (if arrow_at s k
                  then (if out = [] then s else out)[k := CONFIG_MICROBIT_LOG_INVALID_CHAR_VALUE,
                       k + 1 := CONFIG_MICROBIT_LOG_INVALID_CHAR_VALUE,
                       k + 2 := CONFIG_MICROBIT_LOG_INVALID_CHAR_VALUE] else out)
      in if sep_at s rs k then (if out1 = [] then s else out1)[k := CONFIG_MICROBIT_LOG_INVALID_CHAR_VALUE]
         else out1)"
  using assms by (auto simp add: cleanBuffer_step_def arrow_at_def sep_at_def ManagedString_of_def Let_def)

lemma cleanBuffer_step_full:
  assumes "k < length s" and "length out = length s"
  shows "cleanBuffer_step s (length s) rs k out =
     map (\<lambda>j. if (arrow_at s k \<and> (j = k \<or> j = k + 1 \<or> j = k + 2)) \<or> (sep_at s rs k \<and> j = k)
               then CONFIG_MICROBIT_LOG_INVALID_CHAR_VALUE else out ! j) [0..<length s]"
proof -
  have ne: "out \<noteq> []" using assms by auto
  show ?thesis
  proof (rule nth_equalityI)
    show "length (cleanBuffer_step s (length s) rs k out) = length (map (\<lambda>j. if (arrow_at s k \<and> (j = k \<or> j = k + 1 \<or> j = k + 2)) \<or> (sep_at s rs k \<and> j = k)
               then CONFIG_MICROBIT_LOG_INVALID_CHAR_VALUE else out ! j) [0..<length s])"
      using assms ne by (simp add: cleanBuffer_step_cases Let_def)
  next
    fix i assume "i < length (cleanBuffer_step s (length s) rs k out)"
    then have il: "i < length s" using assms ne by (simp add: cleanBuffer_step_cases Let_def split: if_splits)
    show "cleanBuffer_step s (length s) rs k out ! i = map (\<lambda>j. if (arrow_at s k \<and> (j = k \<or> j = k + 1 \<or> j = k + 2)) \<or> (sep_at s rs k \<and> j = k)
               then CONFIG_MICROBIT_LOG_INVALID_CHAR_VALUE else out ! j) [0..<length s] ! i"
      using assms ne il by (simp add: cleanBuffer_step_cases Let_def nth_list_update)
  qed
qed

lemma cleanBuffer_step_empty:
  assumes "k < length s"
  shows "cleanBuffer_step s (length s) rs k [] =
     (if arrow_at s k \<or> sep_at s rs k then cleanBuffer_step s (length s) rs k s else [])"
  using assms by (auto simp add: cleanBuffer_step_cases Let_def)

lemma cleanBuffer_prefix:
  "k \<le> length s \<Longrightarrow>
   fold (cleanBuffer_step s (length s) rs) [0..<k] [] =
     (if \<exists>i<k. arrow_at s i \<or> sep_at s rs i
      then map (\<lambda>j. if marked s rs k j then CONFIG_MICROBIT_LOG_INVALID_CHAR_VALUE else s ! j) [0..<length s]
      else [])"
proof (induction k)
  case 0
  then show ?case by simp
next
  case (Suc k)
  have kl: "k < length s" using Suc.prems by simp
  have IH: "fold (cleanBuffer_step s (length s) rs) [0..<k] [] =
     (if \<exists>i<k. arrow_at s i \<or> sep_at s rs i
      then map (\<lambda>j. if marked s rs k j then CONFIG_MICROBIT_LOG_INVALID_CHAR_VALUE else s ! j) [0..<length s]
      else [])" using Suc by simp
  have unf: "fold (cleanBuffer_step s (length s) rs) [0..<Suc k] [] =
      cleanBuffer_step s (length s) rs k (fold (cleanBuffer_step s (length s) rs) [0..<k] [])"
    by simp
  show ?case
  proof (cases "\<exists>i<k. arrow_at s i \<or> sep_at s rs i")
    case True
    then have ex: "\<exists>i<Suc k. arrow_at s i \<or> sep_at s rs i" using less_Suc_eq by blast
    show ?thesis
      unfolding unf IH using True ex kl
      by (auto simp add: cleanBuffer_step_full marked_Suc simp del: upt_Suc)
  next
    case False
    then have nm: "\<And>j. \<not> marked s rs k j" by (auto simp: marked_def)
    have exS: "(\<exists>i<Suc k. arrow_at s i \<or> sep_at s rs i) \<longleftrightarrow> arrow_at s k \<or> sep_at s rs k"
      using False less_Suc_eq by auto
    have sid: "map (\<lambda>j. s ! j) [0..<length s] = s" by (simp add: map_nth)
    show ?thesis
      unfolding unf IH exS using False kl nm
      by (auto simp add: cleanBuffer_step_empty cleanBuffer_step_full marked_Suc simp del: upt_Suc)
  qed
qed

lemma cleanBuffer_char:
  "cleanBuffer s (length s) rs =
     (if needs_cleaning s rs
      then map (\<lambda>j. if marked s rs (length s) j then CONFIG_MICROBIT_LOG_INVALID_CHAR_VALUE else s ! j) [0..<length s]
      else [])"
  unfolding cleanBuffer_def needs_cleaning_def by (rule cleanBuffer_prefix) simp


lemma cleaned_char:
  "cleaned s rs = map (\<lambda>j. if marked s rs (length s) j then CONFIG_MICROBIT_LOG_INVALID_CHAR_VALUE else s ! j) [0..<length s]"
proof (cases "needs_cleaning s rs")
  case True
  then have "length s \<noteq> 0" by (auto simp: needs_cleaning_def)
  with True show ?thesis by (simp add: cleaned_def cleanBuffer_char Let_def)
next
  case False
  then have "\<And>j. \<not> marked s rs (length s) j" by (auto simp: needs_cleaning_def marked_def)
  with False show ?thesis by (simp add: cleaned_def cleanBuffer_char Let_def map_nth)
qed

lemma cleaned_length: "length (cleaned s rs) = length s"
  by (simp add: cleaned_char)

lemma cleaned_nth:
  "j < length s \<Longrightarrow> cleaned s rs ! j = (if marked s rs (length s) j then CONFIG_MICROBIT_LOG_INVALID_CHAR_VALUE else s ! j)"
  by (simp add: cleaned_char)

lemma marked_arrow: "arrow_at s i \<Longrightarrow> marked s rs (length s) i \<and> marked s rs (length s) (i + 1) \<and> marked s rs (length s) (i + 2)"
  unfolding marked_def arrow_at_def by (intro conjI; rule exI [of _ i]; simp)

lemma marked_sep: "sep_at s rs i \<Longrightarrow> marked s rs (length s) i"
  unfolding marked_def sep_at_def by (rule exI [of _ i]; simp)

lemma cleaned_clean: "\<not> needs_cleaning (cleaned s rs) rs"
proof
  assume "needs_cleaning (cleaned s rs) rs"
  then obtain i where il: "i < length s"
    and hit: "arrow_at (cleaned s rs) i \<or> sep_at (cleaned s rs) rs i"
    by (auto simp: needs_cleaning_def cleaned_length)
  from hit show False
  proof
    assume a: "arrow_at (cleaned s rs) i"
    then have b: "i + 2 < length s" by (simp add: arrow_at_def cleaned_length)
    have c0: "cleaned s rs ! i = CHR ''-''" and c1: "cleaned s rs ! (i + 1) = CHR ''-''"
      and c2: "cleaned s rs ! (i + 2) = CHR ''>''" using a by (simp_all add: arrow_at_def)
    have "s ! i = CHR ''-''" using c0 b
      by (simp add: cleaned_nth CONFIG_MICROBIT_LOG_INVALID_CHAR_VALUE_def split: if_splits)
    moreover have "s ! (i + 1) = CHR ''-''" using c1 b
      by (simp add: cleaned_nth CONFIG_MICROBIT_LOG_INVALID_CHAR_VALUE_def split: if_splits)
    moreover have "s ! (i + 2) = CHR ''>''" using c2 b
      by (simp add: cleaned_nth CONFIG_MICROBIT_LOG_INVALID_CHAR_VALUE_def split: if_splits)
    ultimately have "arrow_at s i" using b by (simp add: arrow_at_def)
    then have "marked s rs (length s) i" using marked_arrow by blast
    then show False using c0 il by (simp add: cleaned_nth CONFIG_MICROBIT_LOG_INVALID_CHAR_VALUE_def)
  next
    assume a: "sep_at (cleaned s rs) rs i"
    have "\<not> marked s rs (length s) i"
      using a il by (auto simp: sep_at_def cleaned_nth CONFIG_MICROBIT_LOG_INVALID_CHAR_VALUE_def split: if_splits)
    then have "cleaned s rs ! i = s ! i" using il by (simp add: cleaned_nth)
    then have "sep_at s rs i" using a by (simp add: sep_at_def cleaned_length)
    then have "marked s rs (length s) i" by (rule marked_sep)
    then show False using \<open>\<not> marked s rs (length s) i\<close> by simp
  qed
qed

lemma cleaned_idem: "cleaned (cleaned s rs) rs = cleaned s rs"
  using cleaned_clean [of s rs]
  by (simp add: cleaned_def [of "cleaned s rs"] cleanBuffer_char Let_def)

lemma arrow_at_decomp: "arrow_at s i \<Longrightarrow> s = take i s @ ''-->'' @ drop (i + 3) s"
proof -
  assume a: "arrow_at s i"
  then have l: "i + 2 < length s" by (simp add: arrow_at_def)
  have "s = take i s @ drop i s" by simp
  also have "drop i s = s ! i # drop (Suc i) s" using l by (simp add: Cons_nth_drop_Suc)
  also have "drop (Suc i) s = s ! (i + 1) # drop (Suc (Suc i)) s" using l by (simp add: Cons_nth_drop_Suc)
  also have "drop (Suc (Suc i)) s = s ! (i + 2) # drop (i + 3) s" using l
    by (simp add: Cons_nth_drop_Suc numeral_3_eq_3)
  finally show ?thesis using a by (simp add: arrow_at_def)
qed

lemma clean_input_no_change:
  assumes "CHR 0x09 \<notin> set x"
    and "\<not> (\<exists>ps ss. x = ps @ ''-->'' @ ss)"
    and "rs \<longrightarrow> CHR '','' \<notin> set x \<and> CHR 0x0A \<notin> set x"
  shows "cleanBuffer x (length x) rs = []"
proof -
  have "\<not> needs_cleaning x rs"
  proof
    assume "needs_cleaning x rs"
    then obtain i where "i < length x" and "arrow_at x i \<or> sep_at x rs i"
      by (auto simp: needs_cleaning_def)
    then show False
    proof (elim disjE)
      assume "arrow_at x i"
      from arrow_at_decomp [OF this] assms(2) show False by blast
    next
      assume "sep_at x rs i"
      then show False using assms(1,3) by (auto simp: sep_at_def dest: nth_mem)
    qed
  qed
  then show ?thesis by (simp add: cleanBuffer_char)
qed



lemma upt_eval:
  "[0..<1] = [0]" "[0..<2] = [0, 1]" "[0..<3] = [0, 1, 2]" "[0..<5] = [0, 1, 2, 3, 4]"
  by (simp_all add: upt_rec)

text \<open>
  C5 (as amended). The claim reads: cleanBuffer is idempotent and length-preserving.  The
  routine returns the empty string whenever no byte has to be replaced, so neither half holds
  of the value it returns.  What holds is this: the value returned is either empty or as long
  as the input, and the cleaning that the callers actually apply (the returned string when it
  is non-empty, the input otherwise) preserves the length and is idempotent.
\<close>

theorem cleanBuffer_effective_idempotent:
  "(cleanBuffer x (length x) rs = [] \<or> length (cleanBuffer x (length x) rs) = length x)
   \<and> length (cleaned x rs) = length x
   \<and> cleaned (cleaned x rs) rs = cleaned x rs"
proof -
  have "cleanBuffer x (length x) rs = [] \<or> length (cleanBuffer x (length x) rs) = length x"
    by (simp add: cleanBuffer_char)
  then show ?thesis by (simp add: cleaned_length cleaned_idem)
qed

theorem cleanBuffer_effective_idempotent_witness:
  "cleaned ''a-->b'' True = ''a###b'' \<and> cleaned (cleaned ''a-->b'' True) True = ''a###b''
   \<and> length (cleaned ''a-->b'' True) = length ''a-->b''"
  using cleanBuffer_effective_idempotent [of "''a-->b''" True]
  by (simp add: cleaned_def cleanBuffer_def cleanBuffer_step_def ManagedString_of_def
      CONFIG_MICROBIT_LOG_INVALID_CHAR_VALUE_def upt_eval)

text \<open>
  The claim as stated fails: cleaning \<open>a-->b\<close> gives \<open>a###b\<close>, and cleaning that again gives the
  empty string; the clean input \<open>ab\<close> has length 2 and is mapped to the empty string.
\<close>

theorem cleanBuffer_idempotent_counterexample:
  "cleanBuffer (cleanBuffer ''a-->b'' 5 True) (length (cleanBuffer ''a-->b'' 5 True)) True
     \<noteq> cleanBuffer ''a-->b'' 5 True
   \<and> length (cleanBuffer ''ab'' 2 True) \<noteq> length ''ab''"
  by (simp add: cleanBuffer_def cleanBuffer_step_def ManagedString_of_def
      CONFIG_MICROBIT_LOG_INVALID_CHAR_VALUE_def upt_eval)

section \<open>Hexadecimal entries: writeNum and strtoul\<close>

lemma below_16:
  "(d :: nat) < 16 \<Longrightarrow> d \<in> {0, 1, 2, 3, 4, 5, 6, 7, 8, 9, 10, 11, 12, 13, 14, 15}"
proof -
  assume "d < 16"
  then have "d = 0 \<or> d = 1 \<or> d = 2 \<or> d = 3 \<or> d = 4 \<or> d = 5 \<or> d = 6 \<or> d = 7 \<or> d = 8
      \<or> d = 9 \<or> d = 10 \<or> d = 11 \<or> d = 12 \<or> d = 13 \<or> d = 14 \<or> d = 15" by arith
  then show ?thesis by blast
qed

lemma hexdigit_char:
  assumes "d < 16"
  shows "hexdigit d = ''0123456789ABCDEF'' ! d"
proof -
  have "d \<in> {0, 1, 2, 3, 4, 5, 6, 7, 8, 9, 10, 11, 12, 13, 14, 15}" using assms by (rule below_16)
  then show ?thesis by (auto simp: hexdigit_def char_of_eq_iff)
qed

lemma hexdigit_props:
  assumes "d < 16"
  shows "hexval (of_char (hexdigit d)) = Some d"
    and "\<not> isspace (of_char (hexdigit d))"
    and "(of_char (hexdigit d) :: byte) \<noteq> 0x2D"
    and "(of_char (hexdigit d) :: byte) \<noteq> 0x2B"
    and "(of_char (hexdigit d) :: byte) \<noteq> 0x78"
    and "(of_char (hexdigit d) :: byte) \<noteq> 0x58"
proof -
  have "d \<in> {0, 1, 2, 3, 4, 5, 6, 7, 8, 9, 10, 11, 12, 13, 14, 15}" using assms by (rule below_16)
  then show "hexval (of_char (hexdigit d)) = Some d"
    and "\<not> isspace (of_char (hexdigit d))"
    and "(of_char (hexdigit d) :: byte) \<noteq> 0x2D"
    and "(of_char (hexdigit d) :: byte) \<noteq> 0x2B"
    and "(of_char (hexdigit d) :: byte) \<noteq> 0x78"
    and "(of_char (hexdigit d) :: byte) \<noteq> 0x58"
    unfolding hexdigit_char [OF assms]
    by (auto simp: hexval_def isspace_def)
qed

lemma nib: "unat (drop_bit k (n :: 32 word) AND 0xf) = (unat n div 2 ^ k) mod 16"
proof -
  have "(0xf :: 32 word) = mask 4" by (simp add: mask_eq_exp_minus_1)
  then have "drop_bit k n AND 0xf = take_bit 4 (drop_bit k n)" by (simp only: take_bit_eq_mask)
  moreover have "take_bit 32 (unat n) = unat n"
    using unsigned_less [of n, where ?'a = nat] by (simp add: take_bit_nat_eq_self)
  then have "unat (take_bit 4 (drop_bit k n)) = take_bit 4 (drop_bit k (unat n))"
    by (simp add: unsigned_take_bit_eq unsigned_drop_bit_eq)
  ultimately show ?thesis by (simp add: take_bit_eq_mod drop_bit_eq_div)
qed

lemma nibble_step: "(x :: nat) div 2 ^ k = (x div 2 ^ (k + 4)) * 16 + x div 2 ^ k mod 16"
proof -
  have "x div 2 ^ (k + 4) = (x div 2 ^ k) div 16" by (simp add: power_add div_mult2_eq)
  then show ?thesis by simp
qed

lemma hexsum:
  fixes x :: nat
  assumes "x < 2 ^ 32"
  shows "(((((((x div 2 ^ 28 mod 16) * 16 + x div 2 ^ 24 mod 16) * 16 + x div 2 ^ 20 mod 16) * 16
          + x div 2 ^ 16 mod 16) * 16 + x div 2 ^ 12 mod 16) * 16 + x div 2 ^ 8 mod 16) * 16
          + x div 2 ^ 4 mod 16) * 16 + x mod 16 = x"
proof -
  have "x div 2 ^ 28 < 16" using assms by (simp add: less_mult_imp_div_less)
  then have 7: "x div 2 ^ 28 mod 16 = x div 2 ^ 28" by simp
  have 6: "x div 2 ^ 28 * 16 + x div 2 ^ 24 mod 16 = x div 2 ^ 24" using nibble_step [of x 24] by simp
  have 5: "x div 2 ^ 24 * 16 + x div 2 ^ 20 mod 16 = x div 2 ^ 20" using nibble_step [of x 20] by simp
  have 4: "x div 2 ^ 20 * 16 + x div 2 ^ 16 mod 16 = x div 2 ^ 16" using nibble_step [of x 16] by simp
  have 3: "x div 2 ^ 16 * 16 + x div 2 ^ 12 mod 16 = x div 2 ^ 12" using nibble_step [of x 12] by simp
  have 2: "x div 2 ^ 12 * 16 + x div 2 ^ 8 mod 16 = x div 2 ^ 8" using nibble_step [of x 8] by simp
  have 1: "x div 2 ^ 8 * 16 + x div 2 ^ 4 mod 16 = x div 2 ^ 4" using nibble_step [of x 4] by simp
  have 0: "x div 2 ^ 4 * 16 + x mod 16 = x" using nibble_step [of x 0] by simp
  show ?thesis by (simp only: 7 6 5 4 3 2 1 0)
qed


lemma writeNum_roundtrip: "strtoul16 (bytes_of (writeNum n)) = n"
proof -
  define d where "d k = unat n div 2 ^ k mod 16" for k
  have lt: "d k < 16" for k by (simp add: d_def)
  note p = hexdigit_props [OF lt]
  have w: "bytes_of (writeNum n) = map (\<lambda>k. of_char (hexdigit (d k))) [28, 24, 20, 16, 12, 8, 4, 0]"
    by (simp add: writeNum_def bytes_of_def nib d_def)
  have s: "hex_accum 0 (map (\<lambda>k. of_char (hexdigit (d k))) [28, 24, 20, 16, 12, 8, 4, 0])
      = ((((((d 28 * 16 + d 24) * 16 + d 20) * 16 + d 16) * 16 + d 12) * 16 + d 8) * 16 + d 4) * 16 + d 0"
    by (simp add: p)
  have "unat n < 2 ^ 32" using unsigned_less [of n, where ?'a = nat] by simp
  from hexsum [OF this]
  have v: "((((((d 28 * 16 + d 24) * 16 + d 20) * 16 + d 16) * 16 + d 12) * 16 + d 8) * 16 + d 4) * 16 + d 0 = unat n"
    by (simp add: d_def)
  have le: "\<not> 0xFFFFFFFF < unat n" using \<open>unat n < 2 ^ 32\<close> by simp
  show ?thesis
    unfolding w
    using le
    by (simp add: strtoul16_def Let_def skip_0x_def p s [simplified] v [simplified])
qed

lemma writeNum_hex_digits: "set (writeNum n) \<subseteq> set ''0123456789ABCDEF''"
proof -
  have "hexdigit (unat (drop_bit k n AND 0xf)) \<in> set ''0123456789ABCDEF''" for k
  proof -
    have "unat (drop_bit k n AND 0xf) < 16" by (simp add: nib)
    then show ?thesis by (subst hexdigit_char) (simp_all del: set_simps)
  qed
  then show ?thesis unfolding writeNum_def set_map by (intro image_subsetI)
qed


section \<open>Appending text: logString\<close>

lemma written_bytes_append [simp]: "written_bytes (os @ os') = written_bytes os @ written_bytes os'"
  by (induction os rule: written_bytes.induct) simp_all

lemma chunk_facts:
  fixes l ps de :: u32
  assumes "0 < l" "ps \<noteq> 0"
  shows "0 < min l (ps - de mod ps)" "min l (ps - de mod ps) \<le> l"
proof -
  have "de mod ps < ps" using assms(2) by (simp add: word_gt_0 word_mod_less_divisor)
  then have "ps - de mod ps \<noteq> 0" by simp
  then show "0 < min l (ps - de mod ps)" using assms(1) by (simp add: word_gt_0 min_def)
  show "min l (ps - de mod ps) \<le> l" by simp
qed

lemma logString_write_char:
  "pageSize cfg \<noteq> 0 \<Longrightarrow> unat l \<le> length data \<Longrightarrow>
   \<exists>st' dops. logString_write cfg data l st = Some (0, st')
     \<and> ops st' = ops st @ dops \<and> written_bytes dops = take (unat l) data
     \<and> st' = st\<lparr>dataEnd := dataEnd st + l, nvm := nvm st', ops := ops st'\<rparr>"
proof (induction cfg data l st rule: logString_write.induct)
  case (1 cfg data l st)
  show ?case
  proof (cases "0 < l")
    case False
    then have "l = 0" by (simp add: word_gt_0)
    then show ?thesis by (simp add: logString_write.simps)
  next
    case True
    define sp where "sp = pageSize cfg - dataEnd st mod pageSize cfg"
    define lw where "lw = min l sp"
    define st1 where "st1 = (if sp \<le> l \<and> dataEnd st + sp < logEnd st
                      then flash_erase cfg (((dataEnd st div pageSize cfg) + 1) * pageSize cfg) st
                      else st)"
    define st2 where "st2 = cache_write (dataEnd st1) (take (unat lw) data) st1"
    define st3 where "st3 = st2\<lparr>dataEnd := dataEnd st2 + lw\<rparr>"
    have lw: "0 < lw" "lw \<le> l" using chunk_facts [OF True "1.prems"(1)] by (simp_all add: lw_def sp_def)
    have ul: "unat (l - lw) = unat l - unat lw" using lw(2) by (simp add: unat_sub)
    have le: "unat lw \<le> unat l" using lw(2) by (simp add: word_le_nat_alt)
    have len: "unat (l - lw) \<le> length (drop (unat lw) data)" using "1.prems"(2) ul by simp
    have unf: "logString_write cfg data l st = logString_write cfg (drop (unat lw) data) (l - lw) st3"
      using True "1.prems"(1)
      by (subst logString_write.simps) (simp add: Let_def sp_def lw_def st1_def st2_def st3_def)
    from "1.IH" [OF True "1.prems"(1) sp_def lw_def st1_def st2_def "1.prems"(1) len, folded st3_def]
    obtain st' dops where r: "logString_write cfg (drop (unat lw) data) (l - lw) st3 = Some (0, st')"
      and o: "ops st' = ops st3 @ dops" and w: "written_bytes dops = take (unat (l - lw)) (drop (unat lw) data)"
      and e: "st' = st3\<lparr>dataEnd := dataEnd st3 + (l - lw), nvm := nvm st', ops := ops st'\<rparr>"
      by blast
    have de1: "dataEnd st1 = dataEnd st" by (simp add: st1_def flash_erase_def)
    have o3: "\<exists>pre. ops st3 = ops st @ pre @ [CacheWrite (dataEnd st) (take (unat lw) data)] \<and> written_bytes pre = []"
      by (auto simp add: st3_def st2_def st1_def cache_write_def flash_erase_def)
    then obtain pre where p: "ops st3 = ops st @ pre @ [CacheWrite (dataEnd st) (take (unat lw) data)]"
      and pw: "written_bytes pre = []" by blast
    have tk: "take (unat lw) data @ take (unat l - unat lw) (drop (unat lw) data) = take (unat l) data"
      using le by (metis le_add_diff_inverse take_add)
    have s3: "st3 = st\<lparr>dataEnd := dataEnd st + lw, nvm := nvm st3, ops := ops st3\<rparr>"
      by (simp add: st3_def st2_def st1_def cache_write_def flash_erase_def)
    have d3: "dataEnd st3 = dataEnd st + lw"
      by (simp add: st3_def st2_def st1_def cache_write_def flash_erase_def)
    have "st' = st\<lparr>dataEnd := dataEnd st + l, nvm := nvm st', ops := ops st'\<rparr>"
    proof -
      have a: "dataEnd st3 + (l - lw) = dataEnd st + l" by (simp add: d3)
      have "st' = st3\<lparr>dataEnd := dataEnd st + l, nvm := nvm st', ops := ops st'\<rparr>"
        using e unfolding a .
      also have "\<dots> = st\<lparr>dataEnd := dataEnd st + l, nvm := nvm st', ops := ops st'\<rparr>"
        by (simp add: st3_def st2_def st1_def cache_write_def flash_erase_def)
      finally show ?thesis .
    qed
    then show ?thesis
      using r o w p pw tk ul unfolding unf
      by (intro exI [of _ st'] exI [of _ "pre @ [CacheWrite (dataEnd st) (take (unat lw) data)] @ dops"]) simp
  qed
qed

lemma logString_write_contiguous:
  "pageSize cfg \<noteq> 0 \<Longrightarrow> unat l \<le> length data \<Longrightarrow>
   logString_write cfg data l st = Some (r, st') \<Longrightarrow> ops st' = ops st @ dops \<Longrightarrow>
   data_writes_from (dataEnd st) dops"
proof (induction cfg data l st arbitrary: dops rule: logString_write.induct)
  case (1 cfg data l st)
  show ?case
  proof (cases "0 < l")
    case False
    then have "l = 0" by (simp add: word_gt_0)
    then show ?thesis using "1.prems"(3,4) by (simp add: logString_write.simps)
  next
    case True
    define sp where "sp = pageSize cfg - dataEnd st mod pageSize cfg"
    define lw where "lw = min l sp"
    define st1 where "st1 = (if sp \<le> l \<and> dataEnd st + sp < logEnd st
                      then flash_erase cfg (((dataEnd st div pageSize cfg) + 1) * pageSize cfg) st
                      else st)"
    define st2 where "st2 = cache_write (dataEnd st1) (take (unat lw) data) st1"
    define st3 where "st3 = st2\<lparr>dataEnd := dataEnd st2 + lw\<rparr>"
    define pre where "pre = (if sp \<le> l \<and> dataEnd st + sp < logEnd st
                      then [FlashErase (((dataEnd st div pageSize cfg) + 1) * pageSize cfg)] else [])"
    have lw: "0 < lw" "lw \<le> l" using chunk_facts [OF True "1.prems"(1)] by (simp_all add: lw_def sp_def)
    have ul: "unat (l - lw) = unat l - unat lw" using lw(2) by (simp add: unat_sub)
    have le: "unat lw \<le> unat l" using lw(2) by (simp add: word_le_nat_alt)
    have len: "unat (l - lw) \<le> length (drop (unat lw) data)" using "1.prems"(2) ul by simp
    have unf: "logString_write cfg data l st = logString_write cfg (drop (unat lw) data) (l - lw) st3"
      using True "1.prems"(1)
      by (subst logString_write.simps) (simp add: Let_def sp_def lw_def st1_def st2_def st3_def)
    have o3: "ops st3 = ops st @ pre @ [CacheWrite (dataEnd st) (take (unat lw) data)]"
      by (simp add: st3_def st2_def st1_def pre_def cache_write_def flash_erase_def)
    have d3: "dataEnd st3 = dataEnd st + lw"
      by (simp add: st3_def st2_def st1_def cache_write_def flash_erase_def)
    have r: "logString_write cfg (drop (unat lw) data) (l - lw) st3 = Some (r, st')"
      using "1.prems"(3) unf by simp
    from logString_write_char [OF "1.prems"(1) len, of st3] r
    obtain dops' where o': "ops st' = ops st3 @ dops'" by auto
    have c: "data_writes_from (dataEnd st3) dops'"
      using "1.IH" [OF True "1.prems"(1) sp_def lw_def st1_def st2_def "1.prems"(1) len, folded st3_def, OF r o'] .
    have dops: "dops = pre @ [CacheWrite (dataEnd st) (take (unat lw) data)] @ dops'"
      using "1.prems"(4) o' o3 by simp
    have ln: "min (length data) (unat lw) = unat lw" using le "1.prems"(2) by simp
    have "data_writes_from (dataEnd st) (pre @ [CacheWrite (dataEnd st) (take (unat lw) data)] @ dops')"
      using c by (simp add: pre_def ln d3)
    then show ?thesis by (simp only: dops)
  qed
qed

lemma init_initialized: "status_initialized st \<Longrightarrow> init cfg st = Some st"
  by (simp add: init_def)

lemma unat_of_nat_le: "unat (of_nat n :: u32) \<le> n"
  by (simp add: unat_of_nat)

lemma bytes_of_length [simp]: "length (bytes_of s) = length s"
  by (simp add: bytes_of_def)

lemma logString_fits:
  assumes "status_initialized st" and "pageSize cfg \<noteq> 0"
    and "\<not> (logEnd st - dataEnd st < of_nat (length (c_str s)))"
  shows "\<exists>st1 dops.
      logString_write cfg (bytes_of (cleaned (c_str s) False)) (of_nat (length (c_str s))) st = Some (0, st1)
    \<and> ops st1 = ops st @ dops
    \<and> written_bytes dops = take (unat (of_nat (length (c_str s)) :: u32)) (bytes_of (cleaned (c_str s) False))
    \<and> st1 = st\<lparr>dataEnd := dataEnd st + of_nat (length (c_str s)), nvm := nvm st1, ops := ops st1\<rparr>
    \<and> logString cfg s st = Some (DEVICE_OK,
          if dataEnd st1 div CONFIG_MICROBIT_LOG_CACHE_BLOCK_SIZE \<noteq> dataEnd st div CONFIG_MICROBIT_LOG_CACHE_BLOCK_SIZE
          then logString_journal cfg st1 else st1)"
proof -
  have len: "unat (of_nat (length (c_str s)) :: u32) \<le> length (bytes_of (cleaned (c_str s) False))"
    by (simp add: cleaned_length unat_of_nat_le)
  from logString_write_char [OF assms(2) len, of st]
  obtain st1 dops where
    w: "logString_write cfg (bytes_of (cleaned (c_str s) False)) (of_nat (length (c_str s))) st = Some (0, st1)"
    and o: "ops st1 = ops st @ dops"
    and b: "written_bytes dops = take (unat (of_nat (length (c_str s)) :: u32)) (bytes_of (cleaned (c_str s) False))"
    and e: "st1 = st\<lparr>dataEnd := dataEnd st + of_nat (length (c_str s)), nvm := nvm st1, ops := ops st1\<rparr>"
    by blast
  have "logString cfg s st = Some (DEVICE_OK,
          if dataEnd st1 div CONFIG_MICROBIT_LOG_CACHE_BLOCK_SIZE \<noteq> dataEnd st div CONFIG_MICROBIT_LOG_CACHE_BLOCK_SIZE
          then logString_journal cfg st1 else st1)"
    using assms(1,3) w
    by (simp add: logString_def init_initialized Let_def cleaned_def)
  with w o b e show ?thesis by blast
qed

lemma round_down_block_unat: "unat ((x :: u32) div 256 * 256) = unat x div 256 * 256"
proof -
  have "unat x div 256 * 256 \<le> unat x" by simp
  moreover have "unat x < 2 ^ 32" using unsigned_less [of x] by simp
  ultimately have "unat x div 256 * 256 < 2 ^ 32" by linarith
  then show ?thesis by (simp add: unat_word_ariths unat_div)
qed

lemma round_down_block: "(x :: u32) div 256 * 256 = of_nat (unat x div 256 * 256)"
  using round_down_block_unat [of x] by (metis of_nat_unat ucast_id)

lemma formatted_fields:
  "\<exists>st. formatted = Some st \<and> status_initialized st \<and> \<not> status_full st \<and> \<not> status_row_started st
     \<and> dataStart st = 12288 \<and> dataEnd st = 12288 \<and> logEnd st = 126972 \<and> journalHead st = 8192
     \<and> journalStart st = 8192 \<and> startAddress st = 4096 \<and> rowData st = [] \<and> \<not> headingsChanged st
     \<and> headingStart st = 0 \<and> headingLength st = 0 \<and> timeStampFormat st = TimeStampNone"
  apply (simp add: formatted_def clear_def example_config_def constructed_def bytes_of_def Let_def
       CONFIG_MICROBIT_LOG_JOURNAL_PAGES_def flash_write_def cache_clear_def )
  apply (simp add: clear_erase.simps flash_erase_def cache_write_def)
  done

lemma logString_journal_head:
  "journalHead (logString_journal cfg st) =
     (if (journalHead st + 8) mod pageSize cfg = 0 \<and> journalHead st + 8 = dataStart st
      then journalStart st else journalHead st + 8)"
proof (cases "(journalHead st + 8) mod pageSize cfg = 0")
  case True
  then show ?thesis
    by (simp add: logString_journal_def Let_def MICROBIT_LOG_JOURNAL_ENTRY_SIZE_def
      cache_write_def flash_erase_def cache_erase_def)
next
  case False
  then show ?thesis
    by (simp add: logString_journal_def Let_def MICROBIT_LOG_JOURNAL_ENTRY_SIZE_def
      cache_write_def flash_erase_def cache_erase_def)
qed

lemma logString_journal_fields:
  "dataEnd (logString_journal cfg st) = dataEnd st"
  "dataStart (logString_journal cfg st) = dataStart st"
  "status_full (logString_journal cfg st) = status_full st"
  by (simp_all add: logString_journal_def Let_def MICROBIT_LOG_JOURNAL_ENTRY_SIZE_def
      cache_write_def flash_erase_def cache_erase_def)

lemma logString_journal_ops:
  "ops (logString_journal cfg st) =
     ops st
     @ (if (journalHead st + 8) mod pageSize cfg = 0
        then [CacheErase (journalHead (logString_journal cfg st)),
              FlashErase (journalHead (logString_journal cfg st))]
        else [])
     @ [CacheWrite (journalHead (logString_journal cfg st))
          (bytes_of (writeNum (of_nat (unat (dataEnd st - dataStart st) div 256 * 256)))),
        CacheWrite (journalHead st) (replicate 8 0)]"
  by (simp add: logString_journal_def Let_def MICROBIT_LOG_JOURNAL_ENTRY_SIZE_def
      CONFIG_MICROBIT_LOG_CACHE_BLOCK_SIZE_def round_down_block
      cache_write_def flash_erase_def cache_erase_def)

lemma logString_journal_nvm:
  "nvm (logString_journal cfg st) =
     program
       (program
          (if (journalHead st + 8) mod pageSize cfg = 0
           then erase_page (pageSize cfg) (nvm st) (journalHead (logString_journal cfg st))
           else nvm st)
          (journalHead (logString_journal cfg st))
          (bytes_of (writeNum (of_nat (unat (dataEnd st - dataStart st) div 256 * 256)))))
       (journalHead st) (replicate 8 0)"
  by (simp add: logString_journal_def Let_def MICROBIT_LOG_JOURNAL_ENTRY_SIZE_def
      CONFIG_MICROBIT_LOG_CACHE_BLOCK_SIZE_def round_down_block
      cache_write_def flash_erase_def cache_erase_def)

lemma writeNum_length [simp]: "length (writeNum n) = 8"
  by (simp add: writeNum_def)

lemma unat_sub_le: "(a :: u32) \<le> b \<Longrightarrow> unat (b - a) = unat b - unat a"
  by (simp add: unat_sub)

lemma program_outside:
  "unat (a - base) \<ge> length bs \<Longrightarrow> program m base bs a = m a"
  by (simp add: program_def)

lemma c_str_replicate_x [simp]: "c_str (replicate n CHR ''x'') = replicate n CHR ''x''"
  by (simp add: c_str_def)

lemma example_pageSize [simp]: "pageSize example_config = 4096"
  by (simp add: example_config_def)

lemma logString_fits_state:
  assumes "status_initialized st" and "pageSize cfg \<noteq> 0"
    and "\<not> (logEnd st - dataEnd st < of_nat (length (c_str s)))"
  obtains st1 where
    "logString_write cfg (bytes_of (cleaned (c_str s) False)) (of_nat (length (c_str s))) st = Some (0, st1)"
    and "dataEnd st1 = dataEnd st + of_nat (length (c_str s))"
    and "journalHead st1 = journalHead st" and "dataStart st1 = dataStart st"
    and "journalStart st1 = journalStart st" and "status_full st1 = status_full st"
    and "status_initialized st1" and "status_row_started st1 = status_row_started st"
    and "logString cfg s st = Some (DEVICE_OK,
          if dataEnd st1 div CONFIG_MICROBIT_LOG_CACHE_BLOCK_SIZE \<noteq> dataEnd st div CONFIG_MICROBIT_LOG_CACHE_BLOCK_SIZE
          then logString_journal cfg st1 else st1)"
proof -
  from logString_fits [OF assms]
  obtain st1 dops where
    w: "logString_write cfg (bytes_of (cleaned (c_str s) False)) (of_nat (length (c_str s))) st = Some (0, st1)"
    and e: "st1 = st\<lparr>dataEnd := dataEnd st + of_nat (length (c_str s)), nvm := nvm st1, ops := ops st1\<rparr>"
    and r: "logString cfg s st = Some (DEVICE_OK,
          if dataEnd st1 div CONFIG_MICROBIT_LOG_CACHE_BLOCK_SIZE \<noteq> dataEnd st div CONFIG_MICROBIT_LOG_CACHE_BLOCK_SIZE
          then logString_journal cfg st1 else st1)"
    by blast
  have "dataEnd st1 = dataEnd st + of_nat (length (c_str s))" by (subst e) simp
  moreover have "journalHead st1 = journalHead st" by (subst e) simp
  moreover have "dataStart st1 = dataStart st" by (subst e) simp
  moreover have "journalStart st1 = journalStart st" by (subst e) simp
  moreover have "status_full st1 = status_full st" by (subst e) simp
  moreover have "status_initialized st1" using assms(1) by (subst e) simp
  moreover have "status_row_started st1 = status_row_started st" by (subst e) simp
  ultimately show ?thesis using w r that by blast
qed

text \<open>
  C1. Every append of logString that does not take the FULL path returns \<open>DEVICE_OK\<close> and
  advances \<open>dataEnd\<close> by the length of the string.  After the data writes of the loop (the
  operations up to \<open>ops st1\<close>), nothing more is issued when \<open>dataEnd div 256\<close> is the same at
  entry and exit; when it differs, exactly one journal commit follows: an optional erase of the
  head's page, then a write of the 8 hex digits of \<open>dataEnd - dataStart\<close> rounded down to a
  multiple of 256 at the advanced journal head, and only then a write of eight zero bytes over
  the previous head.  The entry consists of eight upper-case hexadecimal digits, and reading it
  back with strtoul in base 16, as the mount does, gives that rounded value again.
\<close>

theorem logString_commit_iff_block_crossed:
  assumes "status_initialized st" and "pageSize cfg \<noteq> 0"
    and "\<not> (logEnd st - dataEnd st < of_nat (length (c_str s)))"
  shows "\<exists>st1 st'.
      logString_write cfg (bytes_of (cleaned (c_str s) False)) (of_nat (length (c_str s))) st = Some (0, st1)
    \<and> logString cfg s st = Some (DEVICE_OK, st')
    \<and> dataEnd st' = dataEnd st + of_nat (length (c_str s))
    \<and> (dataEnd st' div CONFIG_MICROBIT_LOG_CACHE_BLOCK_SIZE = dataEnd st div CONFIG_MICROBIT_LOG_CACHE_BLOCK_SIZE
         \<longrightarrow> ops st' = ops st1 \<and> journalHead st' = journalHead st)
    \<and> (dataEnd st' div CONFIG_MICROBIT_LOG_CACHE_BLOCK_SIZE \<noteq> dataEnd st div CONFIG_MICROBIT_LOG_CACHE_BLOCK_SIZE
         \<longrightarrow> journalHead st' =
               (if (journalHead st + 8) mod pageSize cfg = 0 \<and> journalHead st + 8 = dataStart st
                then journalStart st else journalHead st + 8)
           \<and> ops st' = ops st1
                 @ (if (journalHead st + 8) mod pageSize cfg = 0
                    then [CacheErase (journalHead st'), FlashErase (journalHead st')] else [])
                 @ [CacheWrite (journalHead st')
                      (bytes_of (writeNum (of_nat (unat (dataEnd st' - dataStart st) div 256 * 256)))),
                    CacheWrite (journalHead st) (replicate 8 0)]
           \<and> length (writeNum (of_nat (unat (dataEnd st' - dataStart st) div 256 * 256))) = 8
           \<and> set (writeNum (of_nat (unat (dataEnd st' - dataStart st) div 256 * 256)))
                 \<subseteq> set ''0123456789ABCDEF''
           \<and> strtoul16 (bytes_of (writeNum (of_nat (unat (dataEnd st' - dataStart st) div 256 * 256))))
                 = of_nat (unat (dataEnd st' - dataStart st) div 256 * 256)
           \<and> unat (of_nat (unat (dataEnd st' - dataStart st) div 256 * 256) :: u32)
                 = unat (dataEnd st' - dataStart st) div 256 * 256)"
proof -
  from assms obtain st1 where
    w: "logString_write cfg (bytes_of (cleaned (c_str s) False)) (of_nat (length (c_str s))) st = Some (0, st1)"
    and d1: "dataEnd st1 = dataEnd st + of_nat (length (c_str s))"
    and j1: "journalHead st1 = journalHead st" and s1: "dataStart st1 = dataStart st"
    and js1: "journalStart st1 = journalStart st"
    and r: "logString cfg s st = Some (DEVICE_OK,
          if dataEnd st1 div CONFIG_MICROBIT_LOG_CACHE_BLOCK_SIZE \<noteq> dataEnd st div CONFIG_MICROBIT_LOG_CACHE_BLOCK_SIZE
          then logString_journal cfg st1 else st1)"
    by (rule logString_fits_state)
  show ?thesis
  proof (cases "dataEnd st1 div CONFIG_MICROBIT_LOG_CACHE_BLOCK_SIZE = dataEnd st div CONFIG_MICROBIT_LOG_CACHE_BLOCK_SIZE")
    case True
    then show ?thesis using w r d1 j1 by simp
  next
    case False
    let ?st' = "logString_journal cfg st1"
    have h: "journalHead ?st' =
               (if (journalHead st + 8) mod pageSize cfg = 0 \<and> journalHead st + 8 = dataStart st
                then journalStart st else journalHead st + 8)"
      unfolding logString_journal_head j1 js1 s1 by (rule refl)
    have o: "ops ?st' = ops st1
       @ (if (journalHead st + 8) mod pageSize cfg = 0
          then [CacheErase (journalHead ?st'), FlashErase (journalHead ?st')] else [])
       @ [CacheWrite (journalHead ?st')
            (bytes_of (writeNum (of_nat (unat (dataEnd ?st' - dataStart st) div 256 * 256)))),
          CacheWrite (journalHead st) (replicate 8 0)]"
      using logString_journal_ops [of cfg st1] by (simp add: logString_journal_fields j1 s1)
    have r': "logString cfg s st = Some (DEVICE_OK, ?st')" using r False by simp
    have d': "dataEnd ?st' = dataEnd st + of_nat (length (c_str s))"
      by (simp add: logString_journal_fields d1)
    have c': "dataEnd ?st' div CONFIG_MICROBIT_LOG_CACHE_BLOCK_SIZE \<noteq> dataEnd st div CONFIG_MICROBIT_LOG_CACHE_BLOCK_SIZE"
      using False by (simp add: logString_journal_fields)
    show ?thesis
      apply (rule exI [of _ st1])
      apply (rule exI [of _ ?st'])
      apply (intro conjI impI)
            apply (rule w)
           apply (rule r')
          apply (rule d')
         apply (simp add: c')
        apply (simp add: c')
       apply (rule h)
         apply (rule o)
        apply simp
       apply (rule writeNum_hex_digits)
      apply (rule writeNum_roundtrip)
     apply (simp only: round_down_block_unat flip: round_down_block)
      done
  qed
qed

theorem logString_commit_iff_block_crossed_witness:
  "\<exists>st st' st''. formatted = Some st \<and> status_initialized st \<and> pageSize example_config \<noteq> 0
    \<and> \<not> (logEnd st - dataEnd st < of_nat (length (c_str (replicate 300 CHR ''x''))))
    \<and> logString example_config (replicate 300 CHR ''x'') st = Some (DEVICE_OK, st')
    \<and> dataEnd st = 12288 \<and> dataEnd st' = 12588 \<and> journalHead st = 8192 \<and> journalHead st' = 8200
    \<and> (\<exists>pre. ops st' = pre @ [CacheWrite 8200 (bytes_of ''00000100''), CacheWrite 8192 (replicate 8 0)])
    \<and> logString example_config (replicate 200 CHR ''x'') st = Some (DEVICE_OK, st'')
    \<and> dataEnd st'' = 12488 \<and> journalHead st'' = 8192"
proof -
  from formatted_fields obtain st where f: "formatted = Some st" and i: "status_initialized st"
    and d: "dataStart st = 12288" "dataEnd st = 12288" "logEnd st = 126972" "journalHead st = 8192"
      "journalStart st = 8192"
    by blast
  have ps: "pageSize example_config \<noteq> 0" by simp
  have fits: "\<not> (logEnd st - dataEnd st < of_nat (length (c_str (replicate 300 CHR ''x''))))"
    by (simp add: d)
  have fits2: "\<not> (logEnd st - dataEnd st < of_nat (length (c_str (replicate 200 CHR ''x''))))"
    by (simp add: d)
  have wn: "writeNum 256 = ''00000100''"
    by (simp add: writeNum_def hexdigit_def drop_bit_eq_div char_of_eq_iff)
  have a: "\<exists>st'. logString example_config (replicate 300 CHR ''x'') st = Some (DEVICE_OK, st')
    \<and> dataEnd st' = 12588 \<and> journalHead st' = 8200
    \<and> (\<exists>pre. ops st' = pre @ [CacheWrite 8200 (bytes_of ''00000100''), CacheWrite 8192 (replicate 8 0)])"
    using logString_commit_iff_block_crossed [OF i ps fits]
    by (clarsimp simp: d CONFIG_MICROBIT_LOG_CACHE_BLOCK_SIZE_def wn)
  have b: "\<exists>st''. logString example_config (replicate 200 CHR ''x'') st = Some (DEVICE_OK, st'')
    \<and> dataEnd st'' = 12488 \<and> journalHead st'' = 8192"
    using logString_commit_iff_block_crossed [OF i ps fits2]
    by (clarsimp simp: d CONFIG_MICROBIT_LOG_CACHE_BLOCK_SIZE_def)
  from a b f i ps fits d show ?thesis by blast
qed

text \<open>
  C4. When a journal commit advances the head onto a page boundary, the head wraps to
  \<open>journalStart\<close> if the advanced address equals \<open>dataStart\<close> (and stays at the advanced
  address otherwise); in either case the page at the new head is erased, first in the cache
  and then in the flash, before the new entry is written there, and the old entry is zeroed
  last.  The flash contents after the commit are exactly those of erasing that page, programming
  the entry and programming the zeroes, in this order.
\<close>

theorem logString_journal_page_boundary:
  assumes "status_initialized st" and "pageSize cfg \<noteq> 0"
    and "\<not> (logEnd st - dataEnd st < of_nat (length (c_str s)))"
    and "(dataEnd st + of_nat (length (c_str s))) div CONFIG_MICROBIT_LOG_CACHE_BLOCK_SIZE
           \<noteq> dataEnd st div CONFIG_MICROBIT_LOG_CACHE_BLOCK_SIZE"
    and "(journalHead st + of_nat MICROBIT_LOG_JOURNAL_ENTRY_SIZE) mod pageSize cfg = 0"
  shows "\<exists>st1 st' je.
      logString_write cfg (bytes_of (cleaned (c_str s) False)) (of_nat (length (c_str s))) st = Some (0, st1)
    \<and> logString cfg s st = Some (DEVICE_OK, st')
    \<and> journalHead st' = (if journalHead st + 8 = dataStart st then journalStart st else journalHead st + 8)
    \<and> ops st' = ops st1 @ [CacheErase (journalHead st'), FlashErase (journalHead st'),
                            CacheWrite (journalHead st') je, CacheWrite (journalHead st) (replicate 8 0)]
    \<and> nvm st' = program (program (erase_page (pageSize cfg) (nvm st1) (journalHead st')) (journalHead st') je)
                   (journalHead st) (replicate 8 0)
    \<and> je = bytes_of (writeNum (of_nat (unat (dataEnd st' - dataStart st') div 256 * 256)))
    \<and> dataEnd st' = dataEnd st + of_nat (length (c_str s)) \<and> dataStart st' = dataStart st"
proof -
  from assms(1-3) obtain st1 where
    w: "logString_write cfg (bytes_of (cleaned (c_str s) False)) (of_nat (length (c_str s))) st = Some (0, st1)"
    and d1: "dataEnd st1 = dataEnd st + of_nat (length (c_str s))"
    and j1: "journalHead st1 = journalHead st" and s1: "dataStart st1 = dataStart st"
    and js1: "journalStart st1 = journalStart st"
    and r: "logString cfg s st = Some (DEVICE_OK,
          if dataEnd st1 div CONFIG_MICROBIT_LOG_CACHE_BLOCK_SIZE \<noteq> dataEnd st div CONFIG_MICROBIT_LOG_CACHE_BLOCK_SIZE
          then logString_journal cfg st1 else st1)"
    by (rule logString_fits_state)
  have b: "(journalHead st1 + 8) mod pageSize cfg = 0"
    using assms(5) by (simp add: j1 MICROBIT_LOG_JOURNAL_ENTRY_SIZE_def)
  let ?st' = "logString_journal cfg st1"
  have r': "logString cfg s st = Some (DEVICE_OK, ?st')" using r assms(4) d1 by simp
  have h: "journalHead ?st' = (if journalHead st + 8 = dataStart st then journalStart st else journalHead st + 8)"
    using b by (simp add: logString_journal_head j1 js1 s1)
  have o: "ops ?st' = ops st1 @ [CacheErase (journalHead ?st'), FlashErase (journalHead ?st'),
       CacheWrite (journalHead ?st')
         (bytes_of (writeNum (of_nat (unat (dataEnd ?st' - dataStart ?st') div 256 * 256)))),
       CacheWrite (journalHead st) (replicate 8 0)]"
    using logString_journal_ops [of cfg st1] b by (simp add: logString_journal_fields j1)
  have n: "nvm ?st' = program (program (erase_page (pageSize cfg) (nvm st1) (journalHead ?st')) (journalHead ?st')
         (bytes_of (writeNum (of_nat (unat (dataEnd ?st' - dataStart ?st') div 256 * 256)))))
                   (journalHead st) (replicate 8 0)"
    using logString_journal_nvm [of cfg st1] b by (simp add: logString_journal_fields j1)
  have d': "dataEnd ?st' = dataEnd st + of_nat (length (c_str s))" "dataStart ?st' = dataStart st"
    by (simp_all add: logString_journal_fields d1 s1)
  show ?thesis
    using w r' h o n d' by blast
qed

theorem logString_journal_page_boundary_witness:
  "\<exists>st st'. formatted = Some st \<and> status_initialized st \<and> pageSize example_config \<noteq> 0
    \<and> dataStart st = 12288 \<and> journalStart st = 8192
    \<and> logString example_config (replicate 300 CHR ''x'') (st\<lparr>journalHead := 12280\<rparr>) = Some (DEVICE_OK, st')
    \<and> journalHead st' = 8192
    \<and> (\<exists>pre. ops st' = pre @ [CacheErase 8192, FlashErase 8192,
                               CacheWrite 8192 (bytes_of ''00000100''), CacheWrite 12280 (replicate 8 0)])"
proof -
  from formatted_fields obtain st where f: "formatted = Some st" and i: "status_initialized st"
    and d: "dataStart st = 12288" "dataEnd st = 12288" "logEnd st = 126972" "journalStart st = 8192"
    by blast
  let ?st = "st\<lparr>journalHead := 12280\<rparr>"
  have i': "status_initialized ?st" using i by simp
  have ps: "pageSize example_config \<noteq> 0" by simp
  have fits: "\<not> (logEnd ?st - dataEnd ?st < of_nat (length (c_str (replicate 300 CHR ''x''))))"
    by (simp add: d)
  have cross: "(dataEnd ?st + of_nat (length (c_str (replicate 300 CHR ''x'')))) div CONFIG_MICROBIT_LOG_CACHE_BLOCK_SIZE
           \<noteq> dataEnd ?st div CONFIG_MICROBIT_LOG_CACHE_BLOCK_SIZE"
    by (simp add: d CONFIG_MICROBIT_LOG_CACHE_BLOCK_SIZE_def)
  have bnd: "(journalHead ?st + of_nat MICROBIT_LOG_JOURNAL_ENTRY_SIZE) mod pageSize example_config = 0"
    by (simp add: MICROBIT_LOG_JOURNAL_ENTRY_SIZE_def)
  have wn: "writeNum 256 = ''00000100''"
    by (simp add: writeNum_def hexdigit_def drop_bit_eq_div char_of_eq_iff)
  have "\<exists>st'. logString example_config (replicate 300 CHR ''x'') ?st = Some (DEVICE_OK, st')
    \<and> journalHead st' = 8192
    \<and> (\<exists>pre. ops st' = pre @ [CacheErase 8192, FlashErase 8192,
                               CacheWrite 8192 (bytes_of ''00000100''), CacheWrite 12280 (replicate 8 0)])"
    using logString_journal_page_boundary [OF i' ps fits cross bnd]
    by (clarsimp simp: d wn)
  with f i ps d show ?thesis by blast
qed

lemma logString_full_path:
  assumes "status_initialized st" and "dataEnd st \<le> logEnd st"
    and "length (c_str s) < 2 ^ 32"
    and "unat (logEnd st) - unat (dataEnd st) < length (c_str s)"
  shows "logString cfg s st = Some (DEVICE_NO_RESOURCES,
           if \<not> status_full st
           then (cache_write (logEnd st + 1) (bytes_of ''FUL'') st)\<lparr>status_full := True\<rparr>
           else st)"
proof -
  have u: "unat (of_nat (length (c_str s)) :: u32) = length (c_str s)"
    using assms(3) by (simp add: unat_of_nat)
  have "unat (logEnd st - dataEnd st) < unat (of_nat (length (c_str s)) :: u32)"
    using assms(2,4) u by (simp add: unat_sub_le)
  then have c: "logEnd st - dataEnd st < of_nat (length (c_str s))"
    by (simp add: word_less_nat_alt)
  show ?thesis
    using assms(1) c by (simp add: logString_def init_initialized Let_def)
qed

lemma sentinel_outside_data:
  assumes "unat (le :: u32) + 3 < 2 ^ 32" and "a \<le> le"
  shows "program m (le + 1) (bytes_of ''FUL'') a = m a"
proof -
  have le1: "unat (le + 1) = unat le + 1"
    using assms(1) by (simp add: unat_word_ariths)
  have "unat a \<le> unat le" using assms(2) by (simp add: word_le_nat_alt)
  then have "unat (a - (le + 1)) = unat a + 2 ^ 32 - (unat le + 1)"
    by (simp add: unat_sub_if_size le1 word_size)
  then have "unat (a - (le + 1)) \<ge> 3" using assms(1) by simp
  then show ?thesis by (simp add: program_outside bytes_of_def)
qed

text \<open>
  The branch of logString taken when the string is longer than the room left
  (\<open>logEnd - dataEnd\<close>): it returns \<open>DEVICE_NO_RESOURCES\<close> and leaves the full flag set.
  The first time, the only change to the state is the flag and one cache write of the three
  bytes \<open>FUL\<close> at \<open>logEnd + 1\<close>, which touches no byte at or below \<open>logEnd\<close>; once
  the flag is set, an append that does not fit leaves the whole state unchanged.
\<close>

theorem logString_full:
  assumes "status_initialized st" and "dataEnd st \<le> logEnd st"
    and "length (c_str s) < 2 ^ 32"
    and "unat (logEnd st) - unat (dataEnd st) < length (c_str s)"
  shows "\<exists>st'. logString cfg s st = Some (DEVICE_NO_RESOURCES, st')
     \<and> status_full st'
     \<and> (status_full st \<longrightarrow> st' = st)
     \<and> (\<not> status_full st \<longrightarrow>
          st' = st\<lparr>status_full := True,
                   nvm := program (nvm st) (logEnd st + 1) (bytes_of ''FUL''),
                   ops := ops st @ [CacheWrite (logEnd st + 1) (bytes_of ''FUL'')]\<rparr>)
     \<and> (unat (logEnd st) + 3 < 2 ^ 32 \<longrightarrow> (\<forall>a. a \<le> logEnd st \<longrightarrow> nvm st' a = nvm st a))"
proof -
  let ?st' = "if \<not> status_full st
             then (cache_write (logEnd st + 1) (bytes_of ''FUL'') st)\<lparr>status_full := True\<rparr>
             else st"
  have r: "logString cfg s st = Some (DEVICE_NO_RESOURCES, ?st')"
    using assms by (rule logString_full_path)
  have m: "nvm ?st' a = nvm st a" if "unat (logEnd st) + 3 < 2 ^ 32" and "a \<le> logEnd st" for a
    using that by (simp add: cache_write_def sentinel_outside_data)
  show ?thesis
    using r m by (intro exI [of _ ?st']) (simp add: cache_write_def)
qed

theorem logString_full_witness:
  "\<exists>st st'. formatted = Some st \<and> status_initialized st \<and> dataEnd st \<le> logEnd st
     \<and> length (c_str (replicate 114685 CHR ''x'')) < (2 :: nat) ^ 32
     \<and> unat (logEnd st) - unat (dataEnd st) < length (c_str (replicate 114685 CHR ''x''))
     \<and> \<not> status_full st
     \<and> logString example_config (replicate 114685 CHR ''x'') st = Some (DEVICE_NO_RESOURCES, st')
     \<and> status_full st' \<and> ops st' = ops st @ [CacheWrite 126973 (bytes_of ''FUL'')]
     \<and> logString example_config (replicate 114685 CHR ''x'') st' = Some (DEVICE_NO_RESOURCES, st')"
proof -
  from formatted_fields obtain st where f: "formatted = Some st" and i: "status_initialized st"
    and nf: "\<not> status_full st"
    and d: "dataStart st = 12288" "dataEnd st = 12288" "logEnd st = 126972"
    by blast
  have a: "dataEnd st \<le> logEnd st" by (simp add: d)
  have b: "length (c_str (replicate 114685 CHR ''x'')) < (2 :: nat) ^ 32" by simp
  have c: "unat (logEnd st) - unat (dataEnd st) < length (c_str (replicate 114685 CHR ''x''))"
    by (simp add: d)
  from logString_full [OF i a b c, of example_config] nf
  obtain st' where r: "logString example_config (replicate 114685 CHR ''x'') st = Some (DEVICE_NO_RESOURCES, st')"
    and fl: "status_full st'"
    and e: "st' = st\<lparr>status_full := True,
                   nvm := program (nvm st) (logEnd st + 1) (bytes_of ''FUL''),
                   ops := ops st @ [CacheWrite (logEnd st + 1) (bytes_of ''FUL'')]\<rparr>"
    by blast
  have i': "status_initialized st'" using i by (subst e) simp
  have a': "dataEnd st' \<le> logEnd st'" by (subst e, subst e) (simp add: d)
  have c': "unat (logEnd st') - unat (dataEnd st') < length (c_str (replicate 114685 CHR ''x''))"
    by (subst e, subst e) (simp add: d)
  from logString_full [OF i' a' b c', of example_config] fl
  have r': "logString example_config (replicate 114685 CHR ''x'') st' = Some (DEVICE_NO_RESOURCES, st')"
    by auto
  have o: "ops st' = ops st @ [CacheWrite 126973 (bytes_of ''FUL'')]"
    by (subst e) (simp add: d)
  from f i a b c nf r fl o r' show ?thesis by blast
qed

text \<open>
  C3. The claim is that once the log is full every later append returns
  \<open>DEVICE_NO_RESOURCES\<close> and changes nothing, which is also what the comment in the source
  ("treat the log as full") and endRow, which reports \<open>DEVICE_NO_RESOURCES\<close> whenever the
  full flag is set, lead a caller to expect.  logString, however, tests the flag only inside the
  branch taken when the string does not fit.  On the formatted example device a line of 114685
  bytes does not fit: it is refused and latches FULL.  The following append of \<open>ab\<close>
  fits in the room that is left, so it is not refused: logString returns \<open>DEVICE_OK\<close>
  with the full flag still set, the end of the data has moved forward by two, and the two bytes
  \<open>ab\<close> have been written to the flash.
\<close>

theorem logString_appends_after_full:
  "run_full_then_short = Some (DEVICE_NO_RESOURCES, True, DEVICE_OK, True, 2, bytes_of ''ab'')"
proof -
  from formatted_fields obtain st where f: "formatted = Some st" and i: "status_initialized st"
    and nf: "\<not> status_full st"
    and d: "dataStart st = 12288" "dataEnd st = 12288" "logEnd st = 126972"
    by blast
  define st1 where "st1 = (cache_write (logEnd st + 1) (bytes_of ''FUL'') st)\<lparr>status_full := True\<rparr>"
  have r1: "logString example_config (replicate 114685 CHR ''x'') st = Some (DEVICE_NO_RESOURCES, st1)"
    using logString_full_path [OF i, of "replicate 114685 CHR ''x''" example_config] nf
    by (simp add: d st1_def)
  have i1: "status_initialized st1" using i by (simp add: cache_write_def st1_def)
  have f1: "status_full st1" by (simp add: st1_def)
  have d1: "dataEnd st1 = 12288" "logEnd st1 = 126972" by (simp_all add: st1_def cache_write_def d)
  have c: "c_str ''ab'' = ''ab''" by (simp add: c_str_def)
  have cl: "cleaned ''ab'' False = ''ab''"
    by (simp add: cleaned_def cleanBuffer_def cleanBuffer_step_def upt_eval)
  have fits: "\<not> (logEnd st1 - dataEnd st1 < of_nat (length (c_str ''ab'')))"
    by (simp add: d1 c)
  have ps: "pageSize example_config \<noteq> 0" by simp
  from logString_fits [OF i1 ps fits]
  obtain st2 dops where o: "ops st2 = ops st1 @ dops"
    and b: "written_bytes dops = take (unat (of_nat (length (c_str ''ab'')) :: u32)) (bytes_of (cleaned (c_str ''ab'') False))"
    and e: "st2 = st1\<lparr>dataEnd := dataEnd st1 + of_nat (length (c_str ''ab'')), nvm := nvm st2, ops := ops st2\<rparr>"
    and r: "logString example_config ''ab'' st1 = Some (DEVICE_OK,
          if dataEnd st2 div CONFIG_MICROBIT_LOG_CACHE_BLOCK_SIZE \<noteq> dataEnd st1 div CONFIG_MICROBIT_LOG_CACHE_BLOCK_SIZE
          then logString_journal example_config st2 else st2)"
    by blast
  have d2: "dataEnd st2 = 12290" by (subst e) (simp add: d1 c)
  have f2: "status_full st2" by (subst e) (simp add: f1)
  have r2: "logString example_config ''ab'' st1 = Some (DEVICE_OK, st2)"
    using r by (simp add: d1 d2 CONFIG_MICROBIT_LOG_CACHE_BLOCK_SIZE_def)
  have w: "written_bytes (drop (length (ops st1)) (ops st2)) = bytes_of ''ab''"
    using b by (simp add: o c cl bytes_of_def)
  show ?thesis
    by (simp add: run_full_then_short_def f r1 r2 f1 f2 d1 d2 w)
qed

section \<open>Time stamp rendering\<close>

lemma padString_pads:
  "length s \<le> n \<Longrightarrow> padString s n = Some (replicate (n - length s) CHR ''0'' @ s)"
proof (induction "n - length s" arbitrary: s)
  case 0
  then show ?case by (simp add: padString.simps)
next
  case (Suc k)
  then have a: "length s \<noteq> n" and b: "k = n - length (CHR ''0'' # s)" and c: "length (CHR ''0'' # s) \<le> n"
    by simp_all
  have "padString s n = padString (CHR ''0'' # s) n" using a by (subst padString.simps) simp
  also have "\<dots> = Some (replicate (n - length (CHR ''0'' # s)) CHR ''0'' @ CHR ''0'' # s)"
    using Suc.hyps(1) [OF b c] .
  also have "replicate (n - length (CHR ''0'' # s)) CHR ''0'' @ CHR ''0'' # s = replicate (n - length s) CHR ''0'' @ s"
    using Suc.hyps(2) by (simp add: replicate_app_Cons_same flip: replicate_Suc)
  finally show ?case .
qed

lemma dec_digits_length: "0 < k \<Longrightarrow> n < 10 ^ k \<Longrightarrow> length (dec_digits n) \<le> k"
proof (induction k arbitrary: n)
  case 0
  then show ?case by simp
next
  case (Suc k)
  show ?case
  proof (cases "n < 10")
    case True
    then show ?thesis by (simp add: dec_digits.simps)
  next
    case False
    then have k: "0 < k" using Suc.prems(2) by (cases k) simp_all
    have "n div 10 < 10 ^ k" using Suc.prems(2) by (simp add: less_mult_imp_div_less mult.commute)
    from Suc.IH [OF k this] False show ?thesis by (subst dec_digits.simps) simp
  qed
qed

lemma dec_digits_nonempty: "dec_digits n \<noteq> []"
  by (subst dec_digits.simps) simp

lemma uint_small: "unat (x :: u64) < 2 ^ 31 \<Longrightarrow> uint x < 2 ^ 31"
  by (metis of_nat_less_iff of_nat_numeral of_nat_power uint_nat)

lemma sint_ucast_small:
  fixes x :: u64
  assumes "unat x < 2 ^ 31"
  shows "sint (ucast x :: 32 word) = int (unat x)"
proof -
  have "uint x < 2 ^ 31" using assms by (rule uint_small)
  moreover have "(0 :: int) \<le> uint x" by simp
  then have "- (2 ^ 31) \<le> uint x" by (rule order_trans [rotated]) simp
  ultimately have "signed_take_bit 31 (uint x) = uint x" by (simp add: signed_take_bit_int_eq_self)
  then show ?thesis by (simp add: signed_ucast_eq)
qed

lemma units0_small:
  fixes t :: u64
  shows "sint (ucast (t mod 1000000000) :: 32 word) = int (unat t mod 1000000000)"
proof -
  have u: "unat (t mod 1000000000) = unat t mod 1000000000" by (simp add: unat_mod)
  have "unat t mod 1000000000 < 1000000000" by simp
  then have "unat (t mod 1000000000) < 2 ^ 31" using u by simp
  from sint_ucast_small [OF this] u show ?thesis by simp
qed

lemma c_div_nonneg: "0 \<le> a \<Longrightarrow> 0 < b \<Longrightarrow> c_div a b = a div b"
  by (cases "a = 0") (simp_all add: c_div_def)

lemma c_mod_nonneg: "0 \<le> a \<Longrightarrow> 0 < b \<Longrightarrow> c_mod a b = a mod b"
  by (simp add: c_mod_def c_div_nonneg minus_mult_div_eq_mod)

lemma ManagedString_int_nat [simp]: "ManagedString_int (int n) = dec_digits n"
  by (simp add: ManagedString_int_def)

lemma timeStampString_char:
  assumes "(word_of_int fmt :: u64) \<noteq> 0"
  shows "timeStampString fmt now = Some
    (let t = now div word_of_int fmt;
         u0 = unat t mod 1000000000;
         b0 = sint (ucast (t div 1000000000) :: 32 word);
         billions = (if fmt > 1 then c_div b0 100 else b0);
         units = (if fmt > 1 then u0 div 100 else u0);
         fraction = (if fmt > 1 then u0 mod 100 else 0)
     in (if billions \<noteq> 0
         then ManagedString_int billions @ replicate (9 - length (dec_digits units)) CHR ''0'' @ dec_digits units
         else dec_digits units)
        @ (if fmt > 1 then ''.'' @ replicate (2 - length (dec_digits fraction)) CHR ''0'' @ dec_digits fraction
           else []))"
proof -
  define t where "t = now div word_of_int fmt"
  define u0 where "u0 = unat t mod 1000000000"
  define b0 where "b0 = sint (ucast (t div 1000000000) :: 32 word)"
  have u0: "sint (ucast (t mod 1000000000) :: 32 word) = int u0" by (simp add: u0_def units0_small)
  have lt: "u0 < 1000000000" by (simp add: u0_def)
  have "u0 mod 100 < 10 ^ 2" by simp
  then have lf: "length (dec_digits (u0 mod 100)) \<le> 2" by (intro dec_digits_length) simp_all
  have lf0: "length (dec_digits 0) \<le> 2" by (simp add: dec_digits.simps)
  have "u0 div 100 < 10 ^ 9" using lt by simp
  then have lu: "length (dec_digits (u0 div 100)) \<le> 9" by (intro dec_digits_length) simp_all
  have "u0 < 10 ^ 9" using lt by simp
  then have lu0: "length (dec_digits u0) \<le> 9" by (intro dec_digits_length) simp_all
  have m: "c_mod (int u0) 100 = int (u0 mod 100)" by (simp add: c_mod_nonneg zmod_int)
  have d: "c_div (int u0) 100 = int (u0 div 100)" by (simp add: c_div_nonneg zdiv_int)
  have z: "ManagedString_int 0 = dec_digits 0" using ManagedString_int_nat [of 0] by simp
  show ?thesis
  proof (cases "1 < fmt")
    case True
    show ?thesis
    proof (cases "c_div b0 100 = 0")
      case bz: True
      show ?thesis using assms True bz
        by (simp add: timeStampString_def Let_def u0 m d padString_pads [OF lf] flip: t_def u0_def b0_def)
    next
      case nz: False
      show ?thesis using assms True nz
        by (simp add: timeStampString_def Let_def u0 m d padString_pads [OF lf] padString_pads [OF lu]
            flip: t_def u0_def b0_def)
    qed
  next
    case False
    show ?thesis
    proof (cases "b0 = 0")
      case bz: True
      show ?thesis using assms False bz
        by (simp add: timeStampString_def Let_def u0 z padString_pads [OF lf0] flip: t_def u0_def b0_def)
    next
      case nz: False
      show ?thesis using assms False nz
        by (simp add: timeStampString_def Let_def u0 z padString_pads [OF lf0] padString_pads [OF lu0]
            flip: t_def u0_def b0_def)
    qed
  qed
qed

section \<open>Rows, headings and time stamps\<close>

lemma clear_result_initialized: "clear cfg fe st = Some st' \<Longrightarrow> status_initialized st'"
  by (clarsimp simp: clear_def Let_def split: if_splits bind_splits)

lemma mount_result_initialized: "mount cfg st = Some st' \<Longrightarrow> status_initialized st'"
  by (clarsimp simp: mount_def Let_def split: bind_splits)

lemma init_result_initialized: "init cfg st = Some st' \<Longrightarrow> status_initialized st'"
  unfolding init_def
  by (auto simp: clear_result_initialized mount_result_initialized split: if_splits bind_splits)

lemma logData_ok_only: "logData cfg key value st = Some (r, st') \<Longrightarrow> r = DEVICE_OK"
  by (clarsimp simp: logData_def Let_def split: bind_splits prod.splits)

lemma logData_returns:
  assumes "init cfg st = Some st1"
  shows "\<exists>st'. logData cfg key value st = Some (DEVICE_OK, st') \<and> status_initialized st'"
proof -
  have i: "status_initialized st1" using assms by (rule init_result_initialized)
  show ?thesis
    using assms i
    by (simp add: logData_def Let_def init_initialized beginRow_reset_def addHeading_def split: prod.splits)
qed

text \<open>
  C8 (as amended). The claim reads: log(key, value) returns ok or no_resources, and
  no_resources when the log cannot accept the data.  logData only updates the row held in RAM
  and never appends to the flash: whenever it returns, it returns \<open>DEVICE_OK\<close>, also when
  FULL is latched, and it returns whenever initialisation does (in particular on an
  initialised log).  \<open>DEVICE_NO_RESOURCES\<close> is reported by endRow.
\<close>

theorem logData_always_ok:
  "(\<forall>r st'. logData cfg key value st = Some (r, st') \<longrightarrow> r = DEVICE_OK)
   \<and> (init cfg st \<noteq> None \<longrightarrow> (\<exists>st'. logData cfg key value st = Some (DEVICE_OK, st')))
   \<and> (status_initialized st \<longrightarrow> (\<exists>st'. logData cfg key value st = Some (DEVICE_OK, st')))"
proof (intro conjI allI impI)
  fix r st' assume "logData cfg key value st = Some (r, st')"
  then show "r = DEVICE_OK" by (rule logData_ok_only)
next
  assume "init cfg st \<noteq> None"
  then obtain st1 where "init cfg st = Some st1" by auto
  from logData_returns [OF this] show "\<exists>st'. logData cfg key value st = Some (DEVICE_OK, st')" by blast
next
  assume "status_initialized st"
  then have "init cfg st = Some st" by (rule init_initialized)
  from logData_returns [OF this] show "\<exists>st'. logData cfg key value st = Some (DEVICE_OK, st')" by blast
qed

theorem logData_always_ok_witness:
  "\<exists>st st'. formatted = Some st \<and> status_initialized st
     \<and> logData example_config ''k'' ''v'' st = Some (DEVICE_OK, st')"
proof -
  from formatted_fields obtain st where f: "formatted = Some st" and i: "status_initialized st"
    by blast
  from logData_always_ok [of example_config "''k''" "''v''" st] i
  obtain st' where "logData example_config ''k'' ''v'' st = Some (DEVICE_OK, st')" by blast
  with f i show ?thesis by blast
qed

lemma formatted_then_full:
  obtains st st1 where "formatted = Some st"
    and "logString example_config (replicate 114685 CHR ''x'') st = Some (DEVICE_NO_RESOURCES, st1)"
    and "st1 = (cache_write (logEnd st + 1) (bytes_of ''FUL'') st)\<lparr>status_full := True\<rparr>"
    and "status_initialized st1" and "status_full st1" and "\<not> status_row_started st1"
    and "rowData st1 = []" and "timeStampFormat st1 = TimeStampNone" and "\<not> headingsChanged st1"
proof -
  from formatted_fields obtain st where f: "formatted = Some st" and i: "status_initialized st"
    and nf: "\<not> status_full st" and nr: "\<not> status_row_started st"
    and d: "dataStart st = 12288" "dataEnd st = 12288" "logEnd st = 126972"
    and e: "rowData st = []" "timeStampFormat st = TimeStampNone" "\<not> headingsChanged st"
    by blast
  let ?st1 = "(cache_write (logEnd st + 1) (bytes_of ''FUL'') st)\<lparr>status_full := True\<rparr>"
  have r1: "logString example_config (replicate 114685 CHR ''x'') st = Some (DEVICE_NO_RESOURCES, ?st1)"
    using logString_full_path [OF i, of "replicate 114685 CHR ''x''" example_config] nf
    by (simp add: d)
  show ?thesis
    using f r1 i nr e by (intro that [of st ?st1]) (simp_all add: cache_write_def)
qed

text \<open>
  The claim as stated fails: on the example device with FULL latched, logData still returns
  \<open>DEVICE_OK\<close>.
\<close>

theorem logData_when_full_counterexample:
  "run_log_when_full = Some (True, DEVICE_OK)"
proof -
  obtain st st1 where f: "formatted = Some st"
    and r1: "logString example_config (replicate 114685 CHR ''x'') st = Some (DEVICE_NO_RESOURCES, st1)"
    and i1: "status_initialized st1" and fl: "status_full st1"
    by (rule formatted_then_full)
  have "init example_config st1 = Some st1" using i1 by (rule init_initialized)
  from logData_returns [OF this]
  obtain st2 where r2: "logData example_config ''k'' ''v'' st1 = Some (DEVICE_OK, st2)" by blast
  show ?thesis by (simp add: run_log_when_full_def f r1 r2 fl)
qed



lemma addHeading_timeStampHeading [simp]: "timeStampHeading (addHeading k v st) = timeStampHeading st"
  by (simp add: addHeading_def)



lemma logString_journal_flags:
  "status_initialized (logString_journal cfg st) = status_initialized st"
  "status_row_started (logString_journal cfg st) = status_row_started st"
  by (simp_all add: logString_journal_def Let_def cache_write_def flash_erase_def cache_erase_def)

lemma logString_returns:
  assumes "status_initialized st" and "pageSize cfg \<noteq> 0"
  shows "\<exists>r st'. logString cfg s st = Some (r, st') \<and> status_initialized st'"
proof (cases "logEnd st - dataEnd st < of_nat (length (c_str s))")
  case True
  then show ?thesis using assms(1)
    by (simp add: logString_def init_initialized Let_def cache_write_def)
next
  case False
  from logString_fits_state [OF assms False] obtain st1 where
    i1: "status_initialized st1"
    and r: "logString cfg s st = Some (DEVICE_OK,
          if dataEnd st1 div CONFIG_MICROBIT_LOG_CACHE_BLOCK_SIZE \<noteq> dataEnd st div CONFIG_MICROBIT_LOG_CACHE_BLOCK_SIZE
          then logString_journal cfg st1 else st1)"
    by blast
  then show ?thesis by (simp add: logString_journal_flags)
qed

lemma logString_ManagedString_returns:
  assumes "status_initialized st" and "pageSize cfg \<noteq> 0"
  shows "\<exists>st'. logString_ManagedString cfg s st = Some (DEVICE_OK, st') \<and> status_initialized st'"
  using logString_returns [OF assms, of s] by (auto simp: logString_ManagedString_def)

lemma endRow_timestamp_returns:
  assumes "status_initialized st"
    and "timeStampFormat st = TimeStampNone \<or> (word_of_int (timeStampValue cfg (timeStampFormat st)) :: u64) \<noteq> 0"
  shows "\<exists>st'. endRow_timestamp cfg now st = Some st' \<and> status_initialized st'"
proof (cases "timeStampFormat st = TimeStampNone")
  case True
  then show ?thesis using assms(1) by (simp add: endRow_timestamp_def)
next
  case False
  then have "(word_of_int (timeStampValue cfg (timeStampFormat st)) :: u64) \<noteq> 0" using assms(2) by simp
  from timeStampString_char [OF this, of now]
  obtain s where s: "timeStampString (timeStampValue cfg (timeStampFormat st)) now = Some s" by blast
  have "init cfg st = Some st" using assms(1) by (rule init_initialized)
  from logData_returns [OF this, of "timeStampHeading st" s]
  obtain st' where "logData cfg (timeStampHeading st) s st = Some (DEVICE_OK, st')" "status_initialized st'"
    by blast
  then show ?thesis using False s by (simp add: endRow_timestamp_def)
qed

lemma endRow_headings_returns:
  assumes "status_initialized st" and "pageSize cfg \<noteq> 0"
  shows "\<exists>st'. endRow_headings cfg st = Some st' \<and> status_initialized st'"
proof (cases "headingsChanged st")
  case False
  then show ?thesis using assms(1) by (simp add: endRow_headings_def)
next
  case True
  define hs where "hs = (if headingStart st = 0
                  then startAddress st + of_nat sizeof_MicroBitLogMetaData
                  else headingStart st)"
  define h where "h = csvLine (map ce_key (rowData st)) @ [CHR 0x0A]"
  define sb where "sb = cache_write (hs + headingLength st) (bytes_of h)
                   ((cache_write hs (replicate (unat (headingLength st)) 0) (st\<lparr>headingStart := hs\<rparr>))
                      \<lparr>headingStart := hs + headingLength st\<rparr>)"
  have "status_initialized sb" using assms(1) by (simp add: sb_def cache_write_def)
  from logString_ManagedString_returns [OF this assms(2), of h]
  obtain sc where "logString_ManagedString cfg h sb = Some (DEVICE_OK, sc)" "status_initialized sc"
    by blast
  then show ?thesis using True
    by (simp add: endRow_headings_def Let_def flip: hs_def h_def sb_def)
qed

lemma endRow_row_returns:
  assumes "status_initialized st" and "pageSize cfg \<noteq> 0"
  shows "\<exists>st'. endRow_row cfg st = Some st'"
  using logString_ManagedString_returns [OF assms, of "csvLine (map ce_value (rowData st)) @ [CHR 0x0A]"] assms(1)
  by (auto simp: endRow_row_def Let_def)

lemma endRow_returns:
  assumes "status_initialized st" and "pageSize cfg \<noteq> 0"
    and "timeStampFormat st = TimeStampNone \<or> (word_of_int (timeStampValue cfg (timeStampFormat st)) :: u64) \<noteq> 0"
  shows "\<exists>r st'. endRow cfg now st = Some (r, st')"
proof (cases "status_row_started st")
  case False
  then show ?thesis by (simp add: endRow_def)
next
  case True
  from endRow_timestamp_returns [OF assms(1,3), of now]
  obtain st1 where s1: "endRow_timestamp cfg now st = Some st1" and i1: "status_initialized st1" by blast
  from endRow_headings_returns [OF i1 assms(2)]
  obtain st2 where s2: "endRow_headings cfg st1 = Some st2" and i2: "status_initialized st2" by blast
  from endRow_row_returns [OF i2 assms(2)]
  obtain st3 where s3: "endRow_row cfg st2 = Some st3" by blast
  show ?thesis using True assms(1) s1 s2 s3 by (simp add: endRow_def init_initialized Let_def)
qed

lemma endRow_result:
  assumes "endRow cfg now st = Some (r, st')"
  shows "\<not> status_row_started st'"
    and "status_row_started st \<Longrightarrow> r = (if status_full st' then DEVICE_NO_RESOURCES else DEVICE_OK)"
    and "\<not> status_row_started st \<Longrightarrow> r = DEVICE_INVALID_STATE \<and> st' = st"
  using assms by (auto simp: endRow_def Let_def split: if_splits bind_splits)

text \<open>
  C10. endRow clears the row-started flag before it looks at the FULL flag: whenever endRow
  returns, the row is closed, also when the result is \<open>DEVICE_NO_RESOURCES\<close> (which is the
  result exactly when the row was open and FULL is set on return).  A second endRow without
  a beginRow in between therefore returns \<open>DEVICE_INVALID_STATE\<close> and changes nothing.  On an
  initialised log with a non-zero page size (and a non-zero time unit when time stamps are
  on) endRow does return.
\<close>

theorem endRow_closes_row:
  "(\<forall>r st'. endRow cfg now st = Some (r, st') \<longrightarrow>
       \<not> status_row_started st'
     \<and> endRow cfg now' st' = Some (DEVICE_INVALID_STATE, st')
     \<and> (status_row_started st \<longrightarrow> r = (if status_full st' then DEVICE_NO_RESOURCES else DEVICE_OK)))
   \<and> (status_initialized st \<and> pageSize cfg \<noteq> 0
        \<and> (timeStampFormat st = TimeStampNone
             \<or> (word_of_int (timeStampValue cfg (timeStampFormat st)) :: u64) \<noteq> 0)
       \<longrightarrow> (\<exists>r st'. endRow cfg now st = Some (r, st')))"
proof (intro conjI allI impI)
  fix r st' assume e: "endRow cfg now st = Some (r, st')"
  show "\<not> status_row_started st'" using e by (rule endRow_result(1))
  then show "endRow cfg now' st' = Some (DEVICE_INVALID_STATE, st')" by (simp add: endRow_def)
  assume "status_row_started st"
  with e show "r = (if status_full st' then DEVICE_NO_RESOURCES else DEVICE_OK)" by (rule endRow_result(2))
next
  assume "status_initialized st \<and> pageSize cfg \<noteq> 0
        \<and> (timeStampFormat st = TimeStampNone
             \<or> (word_of_int (timeStampValue cfg (timeStampFormat st)) :: u64) \<noteq> 0)"
  then show "\<exists>r st'. endRow cfg now st = Some (r, st')" using endRow_returns by blast
qed

lemma beginRow_not_started:
  assumes "status_initialized st" and "\<not> status_row_started st"
  shows "beginRow cfg now st = Some (DEVICE_OK, beginRow_reset st)"
  using assms by (simp add: beginRow_def init_initialized)

theorem endRow_closes_row_witness:
  "run_endRow_twice_when_full = Some (DEVICE_NO_RESOURCES, False, DEVICE_INVALID_STATE)"
proof -
  obtain st st1 where f: "formatted = Some st"
    and r1: "logString example_config (replicate 114685 CHR ''x'') st = Some (DEVICE_NO_RESOURCES, st1)"
    and i1: "status_initialized st1" and fl: "status_full st1" and nr: "\<not> status_row_started st1"
    and e: "rowData st1 = []" "timeStampFormat st1 = TimeStampNone" "\<not> headingsChanged st1"
    by (rule formatted_then_full)
  let ?st2 = "beginRow_reset st1"
  have r2: "beginRow example_config 0 st1 = Some (DEVICE_OK, ?st2)"
    using i1 nr by (rule beginRow_not_started)
  let ?st3 = "?st2\<lparr>status_row_started := False\<rparr>"
  have r3: "endRow example_config 0 ?st2 = Some (DEVICE_NO_RESOURCES, ?st3)"
    using i1 fl e
    by (simp add: endRow_def beginRow_reset_def init_initialized endRow_timestamp_def
        endRow_headings_def endRow_row_def Let_def)
  from endRow_closes_row [of example_config 0 ?st2 1] r3
  have r4: "endRow example_config 1 ?st3 = Some (DEVICE_INVALID_STATE, ?st3)" by blast
  show ?thesis
    by (simp add: run_endRow_twice_when_full_def f r1 r2 r3 r4)
qed

section \<open>What the callers of cleanBuffer persist\<close>

lemma setValue_found:
  "setValue key value rd = (True, rd') \<Longrightarrow>
     map_of (map (\<lambda>e. (ce_key e, ce_value e)) rd') key = Some value"
proof (induction rd arbitrary: rd')
  case Nil
  then show ?case by simp
next
  case (Cons e es)
  show ?case
  proof (cases "ce_key e = key")
    case True
    with Cons.prems show ?thesis by auto
  next
    case False
    with Cons.prems obtain es' where "setValue key value es = (True, es')" and "rd' = e # es'"
      by (auto split: prod.splits)
    with Cons.IH False show ?thesis by simp
  qed
qed

lemma setValue_missing:
  "setValue key value rd = (False, rd') \<Longrightarrow>
     rd' = rd \<and> map_of (map (\<lambda>e. (ce_key e, ce_value e)) rd) key = None \<and> \<not> list_ex (\<lambda>e. ce_key e = key) rd"
proof (induction rd arbitrary: rd')
  case Nil
  then show ?case by simp
next
  case (Cons e es)
  show ?case
  proof (cases "ce_key e = key")
    case True
    with Cons.prems show ?thesis by auto
  next
    case False
    with Cons.prems obtain es' where "setValue key value es = (False, es')" and "rd' = e # es'"
      by (auto split: prod.splits)
    with Cons.IH False show ?thesis by simp
  qed
qed

lemma logData_char:
  assumes "status_initialized st"
  shows "logData cfg key0 value0 st =
     Some (DEVICE_OK,
       let st1 = (if \<not> status_row_started st then beginRow_reset st else st);
           sv = setValue (cleaned key0 True) (cleaned value0 True) (rowData st1)
       in if \<not> fst sv then addHeading (cleaned key0 True) (cleaned value0 True) (st1\<lparr>rowData := snd sv\<rparr>)
          else st1\<lparr>rowData := snd sv\<rparr>)"
proof (cases "status_row_started st")
  case True
  then show ?thesis using assms
    by (simp add: logData_def init_initialized Let_def cleaned_def split: prod.splits)
next
  case False
  then show ?thesis using assms
    by (simp add: logData_def init_initialized Let_def cleaned_def split: prod.splits)
qed

lemma logData_stores:
  assumes "status_initialized st"
  shows "\<exists>st'. logData cfg key0 value0 st = Some (DEVICE_OK, st')
           \<and> rowValue (cleaned key0 True) st' = Some (cleaned value0 True)"
proof -
  define st1 where "st1 = (if \<not> status_row_started st then beginRow_reset st else st)"
  define key where "key = cleaned key0 True"
  define val where "val = cleaned value0 True"
  obtain added rd where sv: "setValue key val (rowData st1) = (added, rd)" by (cases "setValue key val (rowData st1)")
  have r: "logData cfg key0 value0 st =
     Some (DEVICE_OK, if \<not> added then addHeading key val (st1\<lparr>rowData := rd\<rparr>) else st1\<lparr>rowData := rd\<rparr>)"
    using sv unfolding logData_char [OF assms] Let_def key_def val_def st1_def by simp
  have "rowValue key (if \<not> added then addHeading key val (st1\<lparr>rowData := rd\<rparr>) else st1\<lparr>rowData := rd\<rparr>) = Some val"
  proof (cases added)
    case True
    with sv setValue_found [of key val "rowData st1" rd] show ?thesis by (simp add: rowValue_def)
  next
    case False
    with sv setValue_missing [of key val "rowData st1" rd] show ?thesis
      by (simp add: rowValue_def addHeading_def map_add_Some_iff)
  qed
  with r show ?thesis by (simp add: key_def val_def)
qed

lemma clean_cleaned:
  assumes "CHR 0x09 \<notin> set x"
    and "\<not> (\<exists>ps ss. x = ps @ ''-->'' @ ss)"
    and "rs \<longrightarrow> CHR '','' \<notin> set x \<and> CHR 0x0A \<notin> set x"
  shows "cleaned x rs = x"
  using clean_input_no_change [OF assms] by (simp add: cleaned_def)

lemma c_str_prefix: "\<exists>rest. s = c_str s @ rest"
  by (metis c_str_def takeWhile_dropWhile_id)

lemma c_str_clean:
  assumes "CHR 0x09 \<notin> set x" and "\<not> (\<exists>ps ss. x = ps @ ''-->'' @ ss)"
  shows "CHR 0x09 \<notin> set (c_str x)" and "\<not> (\<exists>ps ss. c_str x = ps @ ''-->'' @ ss)"
proof -
  obtain rest where r: "x = c_str x @ rest" using c_str_prefix by blast
  show "CHR 0x09 \<notin> set (c_str x)" using assms(1) by (metis UnCI r set_append)
  show "\<not> (\<exists>ps ss. c_str x = ps @ ''-->'' @ ss)"
  proof
    assume "\<exists>ps ss. c_str x = ps @ ''-->'' @ ss"
    then obtain ps ss where "c_str x = ps @ ''-->'' @ ss" by blast
    then have "x = ps @ ''-->'' @ (ss @ rest)" using r by (metis append.assoc)
    with assms(2) show False by blast
  qed
qed

text \<open>
  C9. For an input with no tab byte and no occurrence of \<open>-->\<close> (and, when separators
  are removed, no comma and no newline) cleanBuffer returns the empty string.  Its callers take
  the empty result as "unchanged".  logString, on the path that appends, writes exactly the
  bytes of the C string it was given, at consecutive addresses starting at the old end of the
  data, moves the end of the data forward by their number, and returns ok with the state that
  the write loop left, after the journal commit when a block boundary was crossed.  logData
  stores the key and the value as given, so that the row then holds the value under that key.
\<close>

theorem cleanBuffer_empty_when_clean:
  assumes "CHR 0x09 \<notin> set x" and "\<not> (\<exists>ps ss. x = ps @ ''-->'' @ ss)"
  shows "((removeSeparators \<longrightarrow> CHR '','' \<notin> set x \<and> CHR 0x0A \<notin> set x)
            \<longrightarrow> cleanBuffer x (length x) removeSeparators = [])
     \<and> (status_initialized st \<and> pageSize cfg \<noteq> 0 \<and> length (c_str x) < 2 ^ 32
          \<and> \<not> (logEnd st - dataEnd st < of_nat (length (c_str x)))
         \<longrightarrow> (\<exists>st1 dops.
                logString_write cfg (bytes_of (c_str x)) (of_nat (length (c_str x))) st = Some (0, st1)
              \<and> ops st1 = ops st @ dops \<and> written_bytes dops = bytes_of (c_str x)
              \<and> data_writes_from (dataEnd st) dops
              \<and> dataEnd st1 = dataEnd st + of_nat (length (c_str x))
              \<and> logString cfg x st = Some (DEVICE_OK,
                    if dataEnd st1 div CONFIG_MICROBIT_LOG_CACHE_BLOCK_SIZE
                         \<noteq> dataEnd st div CONFIG_MICROBIT_LOG_CACHE_BLOCK_SIZE
                    then logString_journal cfg st1 else st1)))
     \<and> (status_initialized st \<and> CHR '','' \<notin> set x \<and> CHR 0x0A \<notin> set x
          \<and> CHR 0x09 \<notin> set v \<and> \<not> (\<exists>ps ss. v = ps @ ''-->'' @ ss) \<and> CHR '','' \<notin> set v \<and> CHR 0x0A \<notin> set v
         \<longrightarrow> (\<exists>st'. logData cfg x v st = Some (DEVICE_OK, st') \<and> rowValue x st' = Some v))"
proof (intro conjI impI)
  assume "removeSeparators \<longrightarrow> CHR '','' \<notin> set x \<and> CHR 0x0A \<notin> set x"
  with assms show "cleanBuffer x (length x) removeSeparators = []" by (rule clean_input_no_change)
next
  assume h: "status_initialized st \<and> pageSize cfg \<noteq> 0 \<and> length (c_str x) < 2 ^ 32
          \<and> \<not> (logEnd st - dataEnd st < of_nat (length (c_str x)))"
  have c: "cleaned (c_str x) False = c_str x"
    using c_str_clean [OF assms] by (intro clean_cleaned) simp_all
  have u: "unat (of_nat (length (c_str x)) :: u32) = length (c_str x)"
    using h by (simp add: unat_of_nat)
  from h logString_fits [of st cfg x]
  obtain st1 dops where
      w: "logString_write cfg (bytes_of (cleaned (c_str x) False)) (of_nat (length (c_str x))) st = Some (0, st1)"
      and o: "ops st1 = ops st @ dops"
      and b: "written_bytes dops = take (unat (of_nat (length (c_str x)) :: u32)) (bytes_of (cleaned (c_str x) False))"
      and e: "st1 = st\<lparr>dataEnd := dataEnd st + of_nat (length (c_str x)), nvm := nvm st1, ops := ops st1\<rparr>"
      and r: "logString cfg x st = Some (DEVICE_OK,
          if dataEnd st1 div CONFIG_MICROBIT_LOG_CACHE_BLOCK_SIZE \<noteq> dataEnd st div CONFIG_MICROBIT_LOG_CACHE_BLOCK_SIZE
          then logString_journal cfg st1 else st1)"
    by blast
  have len: "unat (of_nat (length (c_str x)) :: u32) \<le> length (bytes_of (cleaned (c_str x) False))"
    by (simp add: c u bytes_of_def)
  have g: "data_writes_from (dataEnd st) dops"
    using h len w o by (intro logString_write_contiguous [of cfg _ _ st 0 st1 dops]) simp_all
  have d: "dataEnd st1 = dataEnd st + of_nat (length (c_str x))"
    by (subst e) simp
  have b': "written_bytes dops = bytes_of (c_str x)"
    using b unfolding c u by (simp add: bytes_of_def)
  from w o b' g d r show "\<exists>st1 dops.
                logString_write cfg (bytes_of (c_str x)) (of_nat (length (c_str x))) st = Some (0, st1)
              \<and> ops st1 = ops st @ dops \<and> written_bytes dops = bytes_of (c_str x)
              \<and> data_writes_from (dataEnd st) dops
              \<and> dataEnd st1 = dataEnd st + of_nat (length (c_str x))
              \<and> logString cfg x st = Some (DEVICE_OK,
                    if dataEnd st1 div CONFIG_MICROBIT_LOG_CACHE_BLOCK_SIZE
                         \<noteq> dataEnd st div CONFIG_MICROBIT_LOG_CACHE_BLOCK_SIZE
                    then logString_journal cfg st1 else st1)"
    unfolding c by blast
next
  assume h: "status_initialized st \<and> CHR '','' \<notin> set x \<and> CHR 0x0A \<notin> set x
          \<and> CHR 0x09 \<notin> set v \<and> \<not> (\<exists>ps ss. v = ps @ ''-->'' @ ss) \<and> CHR '','' \<notin> set v \<and> CHR 0x0A \<notin> set v"
  have cx: "cleaned x True = x" using assms h by (intro clean_cleaned) simp_all
  have cv: "cleaned v True = v" using h by (intro clean_cleaned) simp_all
  from logData_stores [of st cfg x v] h cx cv
  show "\<exists>st'. logData cfg x v st = Some (DEVICE_OK, st') \<and> rowValue x st' = Some v" by simp
qed

lemma no_arrow_without_dash: "CHR ''-'' \<notin> set x \<Longrightarrow> \<not> (\<exists>ps ss. x = ps @ ''-->'' @ ss)"
  by auto

theorem cleanBuffer_empty_when_clean_witness:
  "\<exists>st. formatted = Some st
     \<and> CHR 0x09 \<notin> set ''temp'' \<and> \<not> (\<exists>ps ss. ''temp'' = ps @ ''-->'' @ ss)
     \<and> cleanBuffer ''temp'' (length ''temp'') True = []
     \<and> (\<exists>st1 dops.
            logString_write example_config (bytes_of (c_str ''temp'')) (of_nat (length (c_str ''temp''))) st
              = Some (0, st1)
          \<and> ops st1 = ops st @ dops \<and> written_bytes dops = bytes_of ''temp''
          \<and> data_writes_from 12288 dops \<and> dataEnd st1 = 12292
          \<and> logString example_config ''temp'' st = Some (DEVICE_OK, st1))
     \<and> (\<exists>st'. logData example_config ''temp'' ''21'' st = Some (DEVICE_OK, st')
            \<and> rowValue ''temp'' st' = Some ''21'')"
proof -
  from formatted_fields obtain st where f: "formatted = Some st" and i: "status_initialized st"
    and d: "dataStart st = 12288" "dataEnd st = 12288" "logEnd st = 126972"
    by blast
  have a: "CHR 0x09 \<notin> set ''temp''" by simp
  have b: "\<not> (\<exists>ps ss. ''temp'' = ps @ ''-->'' @ ss)" by (rule no_arrow_without_dash) simp
  have c: "c_str ''temp'' = ''temp''" by (simp add: c_str_def)
  note t = cleanBuffer_empty_when_clean [OF a b, of True st example_config "''21''"]
  have 1: "cleanBuffer ''temp'' (length ''temp'') True = []" using t by simp
  have "\<exists>st1 dops.
            logString_write example_config (bytes_of (c_str ''temp'')) (of_nat (length (c_str ''temp''))) st
              = Some (0, st1)
          \<and> ops st1 = ops st @ dops \<and> written_bytes dops = bytes_of ''temp''
          \<and> data_writes_from 12288 dops \<and> dataEnd st1 = 12292
          \<and> logString example_config ''temp'' st = Some (DEVICE_OK,
                if dataEnd st1 div CONFIG_MICROBIT_LOG_CACHE_BLOCK_SIZE \<noteq> 12288 div CONFIG_MICROBIT_LOG_CACHE_BLOCK_SIZE
                then logString_journal example_config st1 else st1)"
    using t i by (simp add: c d)
  then obtain st1 dops where
      w: "logString_write example_config (bytes_of (c_str ''temp'')) (of_nat (length (c_str ''temp''))) st
              = Some (0, st1)"
      and o: "ops st1 = ops st @ dops" "written_bytes dops = bytes_of ''temp''"
        "data_writes_from 12288 dops"
      and e: "dataEnd st1 = 12292"
      and r: "logString example_config ''temp'' st = Some (DEVICE_OK,
                if dataEnd st1 div CONFIG_MICROBIT_LOG_CACHE_BLOCK_SIZE \<noteq> 12288 div CONFIG_MICROBIT_LOG_CACHE_BLOCK_SIZE
                then logString_journal example_config st1 else st1)"
    by blast
  from r have r': "logString example_config ''temp'' st = Some (DEVICE_OK, st1)"
    by (simp add: e CONFIG_MICROBIT_LOG_CACHE_BLOCK_SIZE_def)
  from w o e r' have 2: "\<exists>st1 dops.
            logString_write example_config (bytes_of (c_str ''temp'')) (of_nat (length (c_str ''temp''))) st
              = Some (0, st1)
          \<and> ops st1 = ops st @ dops \<and> written_bytes dops = bytes_of ''temp''
          \<and> data_writes_from 12288 dops \<and> dataEnd st1 = 12292
          \<and> logString example_config ''temp'' st = Some (DEVICE_OK, st1)"
    by blast
  have v: "\<not> (\<exists>ps ss. ''21'' = ps @ ''-->'' @ ss)" by (rule no_arrow_without_dash) simp
  have 3: "\<exists>st'. logData example_config ''temp'' ''21'' st = Some (DEVICE_OK, st')
            \<and> rowValue ''temp'' st' = Some ''21''"
    using t i v by simp
  from f a b 1 2 3 show ?thesis by blast
qed

section \<open>A time-stamped row\<close>

lemma logString_write_single:
  assumes "0 < l" and "pageSize cfg \<noteq> 0" and "l < pageSize cfg - dataEnd st mod pageSize cfg"
  shows "logString_write cfg data l st =
     Some (0, (cache_write (dataEnd st) (take (unat l) data) st)\<lparr>dataEnd := dataEnd st + l\<rparr>)"
proof -
  have m: "min l (pageSize cfg - dataEnd st mod pageSize cfg) = l"
    using assms(3) by (metis min.absorb1 order_less_imp_le)
  have n: "\<not> (pageSize cfg - dataEnd st mod pageSize cfg \<le> l)" using assms(3) by simp
  show ?thesis
    using assms(1,2) m n
    by (subst logString_write.simps) (simp add: Let_def cache_write_def logString_write.simps [of _ _ 0])
qed

lemma logString_single:
  assumes "status_initialized st" and "pageSize cfg \<noteq> 0"
    and "c_str s = s" and "cleaned s False = s" and "length s < 2 ^ 32"
    and "\<not> (logEnd st - dataEnd st < of_nat (length s))"
    and "0 < (of_nat (length s) :: u32)"
    and "(of_nat (length s) :: u32) < pageSize cfg - dataEnd st mod pageSize cfg"
    and "(dataEnd st + of_nat (length s)) div CONFIG_MICROBIT_LOG_CACHE_BLOCK_SIZE
           = dataEnd st div CONFIG_MICROBIT_LOG_CACHE_BLOCK_SIZE"
  shows "logString cfg s st =
     Some (DEVICE_OK, (cache_write (dataEnd st) (bytes_of s) st)\<lparr>dataEnd := dataEnd st + of_nat (length s)\<rparr>)"
proof -
  have u: "unat (of_nat (length s) :: u32) = length s" using assms(5) by (simp add: unat_of_nat)
  have w: "logString_write cfg (bytes_of s) (of_nat (length s)) st =
     Some (0, (cache_write (dataEnd st) (bytes_of s) st)\<lparr>dataEnd := dataEnd st + of_nat (length s)\<rparr>)"
    using logString_write_single [OF assms(7) assms(2) assms(8), of "bytes_of s"] by (simp add: u)
  have c: "cleanBuffer s (length s) False = s" if "cleanBuffer s (length s) False \<noteq> []"
    using assms(4) that by (simp add: cleaned_def Let_def)
  show ?thesis
    using assms(1,6,9)
    by (simp add: logString_def init_initialized Let_def assms(3) c w cache_write_def)
qed

lemma example_fields [simp]:
  "pageSize (example_config\<lparr>timeStampValue := tsv\<rparr>) = 4096"
  "flashStart (example_config\<lparr>timeStampValue := tsv\<rparr>) = 0"
  "flashEnd (example_config\<lparr>timeStampValue := tsv\<rparr>) = 0x20000"
  "length (header (example_config\<lparr>timeStampValue := tsv\<rparr>)) = 8"
  "length (journalEntryInit (example_config\<lparr>timeStampValue := tsv\<rparr>)) = 8"
  "timeStampValue (example_config\<lparr>timeStampValue := tsv\<rparr>) = tsv"
  by (simp_all add: example_config_def bytes_of_def)

lemma first_data_page_outside:
  fixes a :: u32
  assumes "12288 \<le> a" and "a < 16384" and "base \<le> 12288"
    and "unat base + length bs \<le> 12288"
  shows "program m base bs a = m a"
proof -
  have "unat base \<le> unat a" using assms(1,3) by (simp add: word_le_nat_alt)
  then have "unat (a - base) = unat a - unat base" by (simp add: unat_sub word_le_nat_alt)
  moreover have "12288 \<le> unat a" using assms(1) by (simp add: word_le_nat_alt)
  ultimately have "length bs \<le> unat (a - base)" using assms(4) by linarith
  then show ?thesis by (rule program_outside)
qed

lemma first_data_page_div:
  fixes a :: u32
  assumes "12288 \<le> a" and "a < 16384"
  shows "a div 4096 = 3"
proof -
  have "12288 \<le> unat a" "unat a < 16384" using assms by (simp_all add: word_le_nat_alt word_less_nat_alt)
  then have "unat a div 4096 = 3" by simp
  then have "unat (a div 4096) = unat (3 :: u32)" by (simp add: unat_div)
  then show ?thesis by (simp only: word_unat_eq_iff)
qed

lemma formatted_page_erased:
  fixes a :: u32
  assumes "12288 \<le> a" and "a < 16384"
    and "length hdr \<le> 8" and "length md \<le> 40" and "length je \<le> 8"
  shows "program (program (program (erase_page 4096 m 12288) 0 hdr) 4096 md) 8192 je a = 0xFF"
proof -
  have 1: "program (program (program (erase_page 4096 m 12288) 0 hdr) 4096 md) 8192 je a
        = program (program (erase_page 4096 m 12288) 0 hdr) 4096 md a"
    using assms by (intro first_data_page_outside) simp_all
  have 2: "program (program (erase_page 4096 m 12288) 0 hdr) 4096 md a
        = program (erase_page 4096 m 12288) 0 hdr a"
    using assms by (intro first_data_page_outside) simp_all
  have 3: "program (erase_page 4096 m 12288) 0 hdr a = erase_page 4096 m 12288 a"
    using assms by (intro first_data_page_outside) simp_all
  have 4: "erase_page 4096 m 12288 a = 0xFF"
    using first_data_page_div [OF assms(1,2)] by (simp add: erase_page_def)
  show ?thesis by (simp only: 1 2 3 4)
qed


lemma clear_example:
  "\<exists>st m. clear (example_config\<lparr>timeStampValue := tsv\<rparr>) False (constructed erased_flash 1) = Some st
     \<and> status_initialized st \<and> \<not> status_full st \<and> \<not> status_row_started st
     \<and> dataStart st = 12288 \<and> dataEnd st = 12288 \<and> logEnd st = 126972 \<and> journalHead st = 8192
     \<and> journalStart st = 8192 \<and> startAddress st = 4096 \<and> rowData st = [] \<and> \<not> headingsChanged st
     \<and> headingStart st = 0 \<and> headingLength st = 0 \<and> timeStampFormat st = TimeStampNone
     \<and> nvm st = program (program (program (erase_page 4096 m 12288) 0 (bytes_of ''<html>..'')) 4096
                    (bytes_of MICROBIT_LOG_VERSION @ bytes_of (''0x'' @ writeNum 12288) @ [0]
                       @ bytes_of (''0x'' @ writeNum 126972) @ [0])) 8192
                    (bytes_of ''00000000'')"
  apply (simp add: clear_def example_config_def constructed_def Let_def
       CONFIG_MICROBIT_LOG_JOURNAL_PAGES_def flash_write_def cache_clear_def)
  apply (simp add: clear_erase.simps flash_erase_def cache_write_def MICROBIT_LOG_JOURNAL_ENTRY_SIZE_def
       bytes_of_def)
  apply blast
  done

lemma clean_literal:
  assumes "CHR 0x09 \<notin> set x" and "CHR ''-'' \<notin> set x"
    and "rs \<longrightarrow> CHR '','' \<notin> set x \<and> CHR 0x0A \<notin> set x"
  shows "cleaned x rs = x"
  using assms by (intro clean_cleaned no_arrow_without_dash) simp_all

lemma timeStampString_12340: "timeStampString 10 12340 = Some ''12.34''"
  by (simp add: timeStampString_def Let_def c_div_def c_mod_def ManagedString_int_def
      dec_digits.simps char_of_eq_iff padString.simps)

lemma seconds_row_example:
  assumes "tsv Seconds = 10"
  shows "seconds_row (example_config\<lparr>timeStampValue := tsv\<rparr>) =
     Some (DEVICE_OK, 26, bytes_of (''Time (seconds),v'' @ [CHR 0x0A] @ ''12.34,hi'' @ [CHR 0x0A]))"
proof -
  let ?cfg = "example_config\<lparr>timeStampValue := tsv\<rparr>"
  let ?T = "''Time (seconds)''"
  let ?H = "''Time (seconds),v'' @ [CHR 0x0A]"
  let ?R = "''12.34,hi'' @ [CHR 0x0A]"
  from clear_example [of tsv] obtain st0 m where
    c: "clear ?cfg False (constructed erased_flash 1) = Some st0"
    and i0: "status_initialized st0" and f0: "\<not> status_full st0" and r0: "\<not> status_row_started st0"
    and d0: "dataStart st0 = 12288" "dataEnd st0 = 12288" "logEnd st0 = 126972" "startAddress st0 = 4096"
    and h0: "rowData st0 = []" "headingStart st0 = 0" "headingLength st0 = 0"
    and n0: "nvm st0 = program (program (program (erase_page 4096 m 12288) 0 (bytes_of ''<html>..'')) 4096
                    (bytes_of MICROBIT_LOG_VERSION @ bytes_of (''0x'' @ writeNum 12288) @ [0]
                       @ bytes_of (''0x'' @ writeNum 126972) @ [0])) 8192
                    (bytes_of ''00000000'')"
    by blast
  have ps: "pageSize ?cfg \<noteq> 0" by simp
  \<comment> \<open>setTimeStamp\<close>
  define st1 where "st1 = st0\<lparr>timeStampFormat := Seconds, timeStampHeading := ?T,
        rowData := [\<lparr>ce_key = ?T, ce_value = []\<rparr>], headingsChanged := True\<rparr>"
  have s1: "setTimeStamp ?cfg Seconds st0 = Some st1"
    using i0 h0 by (simp add: setTimeStamp_def init_initialized Let_def addHeading_def st1_def)
  have i1: "status_initialized st1" and r1: "\<not> status_row_started st1"
    using i0 r0 by (simp_all add: st1_def)
  \<comment> \<open>beginRow\<close>
  define st2 where "st2 = beginRow_reset st1"
  have s2: "beginRow ?cfg 0 st1 = Some (DEVICE_OK, st2)"
    unfolding st2_def using i1 r1 by (rule beginRow_not_started)
  have i2: "status_initialized st2" and r2: "status_row_started st2"
    and rd2: "rowData st2 = [\<lparr>ce_key = ?T, ce_value = []\<rparr>]"
    using i1 by (simp_all add: st2_def beginRow_reset_def st1_def)
  \<comment> \<open>logData v hi\<close>
  define st3 where "st3 = st2\<lparr>rowData := [\<lparr>ce_key = ?T, ce_value = []\<rparr>, \<lparr>ce_key = ''v'', ce_value = ''hi''\<rparr>],
        headingsChanged := True\<rparr>"
  have cv: "cleaned ''v'' True = ''v''" and chi: "cleaned ''hi'' True = ''hi''"
    by (rule clean_literal; simp)+
  have s3: "logData ?cfg ''v'' ''hi'' st2 = Some (DEVICE_OK, st3)"
    unfolding logData_char [OF i2] using r2 rd2
    by (simp add: cv chi Let_def addHeading_def st3_def)
  have i3: "status_initialized st3" and r3: "status_row_started st3"
    and ts3: "timeStampFormat st3 = Seconds" "timeStampHeading st3 = ?T"
    using i2 r2 by (simp_all add: st3_def st2_def beginRow_reset_def st1_def)
  \<comment> \<open>endRow: the time stamp\<close>
  define st4 where "st4 = st3\<lparr>rowData := [\<lparr>ce_key = ?T, ce_value = ''12.34''\<rparr>, \<lparr>ce_key = ''v'', ce_value = ''hi''\<rparr>]\<rparr>"
  have cT: "cleaned ?T True = ?T" and c12: "cleaned ''12.34'' True = ''12.34''"
    by (rule clean_literal; simp)+
  have l4: "logData ?cfg ?T ''12.34'' st3 = Some (DEVICE_OK, st4)"
    unfolding logData_char [OF i3] using r3
    by (simp add: cT c12 Let_def st4_def st3_def)
  have s4: "endRow_timestamp ?cfg 12340 st3 = Some st4"
    using ts3 assms l4 by (simp add: endRow_timestamp_def timeStampString_12340)
  have i4: "status_initialized st4" and f4: "\<not> status_full st4"
    and d4: "dataEnd st4 = 12288" "logEnd st4 = 126972" "startAddress st4 = 4096"
       "headingStart st4 = 0" "headingLength st4 = 0" "headingsChanged st4"
    and rd4: "rowData st4 = [\<lparr>ce_key = ?T, ce_value = ''12.34''\<rparr>, \<lparr>ce_key = ''v'', ce_value = ''hi''\<rparr>]"
    using i0 f0 d0 h0 by (simp_all add: st4_def st3_def st2_def beginRow_reset_def st1_def)
  \<comment> \<open>endRow: the headings\<close>
  define sb where "sb = cache_write 4136 (bytes_of ?H)
      ((cache_write 4136 [] (st4\<lparr>headingStart := 4136\<rparr>))\<lparr>headingStart := 4136\<rparr>)"
  define st5 where "st5 = (cache_write 12288 (bytes_of ?H) sb)\<lparr>dataEnd := 12305, headingsChanged := False\<rparr>"
  have ib: "status_initialized sb" and db: "dataEnd sb = 12288" "logEnd sb = 126972"
    using i4 d4 by (simp_all add: sb_def cache_write_def)
  have cH: "cleaned ?H False = ?H" by (rule clean_literal) simp_all
  have lH: "logString ?cfg ?H sb =
     Some (DEVICE_OK, (cache_write (dataEnd sb) (bytes_of ?H) sb)\<lparr>dataEnd := dataEnd sb + of_nat (length ?H)\<rparr>)"
    using ib ps
    by (rule logString_single) (simp_all add: c_str_def cH [simplified] db CONFIG_MICROBIT_LOG_CACHE_BLOCK_SIZE_def)
  have lH': "logString ?cfg ?H sb = Some (DEVICE_OK, (cache_write 12288 (bytes_of ?H) sb)\<lparr>dataEnd := 12305\<rparr>)"
    using lH by (simp add: db)
  have s5: "endRow_headings ?cfg st4 = Some st5"
    using d4 rd4 lH' [unfolded sb_def]
    by (simp add: endRow_headings_def Let_def sizeof_MicroBitLogMetaData_def logString_ManagedString_def
        st5_def sb_def)
  have i5: "status_initialized st5" and f5: "\<not> status_full st5"
    and d5: "dataEnd st5 = 12305" "logEnd st5 = 126972"
    and rd5: "rowData st5 = [\<lparr>ce_key = ?T, ce_value = ''12.34''\<rparr>, \<lparr>ce_key = ''v'', ce_value = ''hi''\<rparr>]"
    using i4 f4 d4 rd4 by (simp_all add: st5_def sb_def cache_write_def)
  \<comment> \<open>endRow: the row\<close>
  define st6 where "st6 = (cache_write 12305 (bytes_of ?R) st5)\<lparr>dataEnd := 12314\<rparr>"
  have cR: "cleaned ?R False = ?R" by (rule clean_literal) simp_all
  have lR: "logString ?cfg ?R st5 =
     Some (DEVICE_OK, (cache_write (dataEnd st5) (bytes_of ?R) st5)\<lparr>dataEnd := dataEnd st5 + of_nat (length ?R)\<rparr>)"
    using i5 ps
    by (rule logString_single) (simp_all add: c_str_def cR [simplified] d5 CONFIG_MICROBIT_LOG_CACHE_BLOCK_SIZE_def)
  have s6: "endRow_row ?cfg st5 = Some st6"
    using rd5 lR by (simp add: endRow_row_def Let_def logString_ManagedString_def d5 st6_def)
  have f6: "\<not> status_full st6" using f5 by (simp add: st6_def cache_write_def)
  have s7: "endRow ?cfg 12340 st3 = Some (DEVICE_OK, st6\<lparr>status_row_started := False\<rparr>)"
    using r3 i3 s4 s5 s6 f6 by (simp add: endRow_def init_initialized Let_def)
  \<comment> \<open>what the data region holds\<close>
  have n6: "nvm st6 = program (program (program (program (nvm st0) 4136 []) 4136 (bytes_of ?H))
                      12288 (bytes_of ?H)) 12305 (bytes_of ?R)"
    by (simp add: st6_def st5_def sb_def st4_def st3_def st2_def beginRow_reset_def st1_def cache_write_def)
  have e0: "nvm st0 a = 0xFF" if "12288 \<le> a" "a < 16384" for a
    unfolding n0 using that by (rule formatted_page_erased) (simp_all add: MICROBIT_LOG_VERSION_def)
  have rb: "read_bytes (nvm st6) 12288 26 = bytes_of (?H @ ?R)"
    unfolding n6
    by (simp add: read_bytes_def program_def bytes_of_def e0 upt_rec [of 0] upt_rec [of "Suc _"] upt_rec [of "numeral _"]
        unsigned_minus_1_eq_mask mask_eq_exp_minus_1)
  have de6: "dataEnd st6 = 12314" by (simp add: st6_def)
  show ?thesis
    by (simp add: seconds_row_def c s1 s2 s3 s7 d0 de6 rb)
qed

lemma digit_char:
  assumes "(d :: nat) < 10"
  shows "char_of (of_char CHR ''0'' + d) \<in> set ''0123456789''"
proof -
  from assms have "d < 16" by simp
  then have "d \<in> {0, 1, 2, 3, 4, 5, 6, 7, 8, 9, 10, 11, 12, 13, 14, 15}" by (rule below_16)
  with assms show ?thesis by (auto simp add: char_of_eq_iff)
qed

lemma dec_digits_digits: "set (dec_digits n) \<subseteq> set ''0123456789''"
proof (induction n rule: dec_digits.induct)
  case (1 n)
  show ?case
  proof (cases "n < 10")
    case True
    then show ?thesis using digit_char [of n] by (simp add: dec_digits.simps [of n])
  next
    case False
    have "n mod 10 < 10" by simp
    then have "char_of (of_char CHR ''0'' + n mod 10) \<in> set ''0123456789''" by (rule digit_char)
    with 1 False show ?thesis by (simp add: dec_digits.simps [of n])
  qed
qed

lemma char_of_48: "char_of (48 :: nat) = CHR ''0''"
  by (simp add: char_of_eq_iff)

lemma two_digits_pad:
  assumes "f < 100"
  shows "replicate (2 - length (dec_digits f)) CHR ''0'' @ dec_digits f = two_digits f"
proof (cases "f < 10")
  case True
  then show ?thesis by (simp add: dec_digits.simps [of f] two_digits_def char_of_48)
next
  case False
  then have "f div 10 < 10" using assms by simp
  then have "dec_digits (f div 10) = [char_of (of_char CHR ''0'' + f div 10)]"
    by (simp add: dec_digits.simps [of "f div 10"])
  with False show ?thesis by (simp add: dec_digits.simps [of f] two_digits_def)
qed

lemma timeStampString_fraction:
  assumes "1 < fmt" and "(word_of_int fmt :: u64) \<noteq> 0"
  shows "\<exists>ip. timeStampString fmt now = Some (ip @ ''.'' @ two_digits (unat (now div word_of_int fmt) mod 100))
     \<and> CHR ''.'' \<notin> set ip
     \<and> (unat (now div word_of_int fmt) < 1000000000
          \<longrightarrow> ip = dec_digits (unat (now div word_of_int fmt) div 100))"
proof -
  define t where "t = now div word_of_int fmt"
  define u0 where "u0 = unat t mod 1000000000"
  define b0 where "b0 = sint (ucast (t div 1000000000) :: 32 word)"
  define ip where "ip = (if c_div b0 100 \<noteq> 0
         then ManagedString_int (c_div b0 100) @ replicate (9 - length (dec_digits (u0 div 100))) CHR ''0''
                @ dec_digits (u0 div 100)
         else dec_digits (u0 div 100))"
  have m: "u0 mod 100 = unat t mod 100"
    unfolding u0_def by (rule mod_mod_cancel) simp
  have "u0 mod 100 < 100" by simp
  then have p: "replicate (2 - length (dec_digits (u0 mod 100))) CHR ''0'' @ dec_digits (u0 mod 100)
      = two_digits (u0 mod 100)"
    by (rule two_digits_pad)
  have r: "timeStampString fmt now = Some (ip @ ''.'' @ two_digits (unat t mod 100))"
    using assms(1) p
    by (simp add: timeStampString_char [OF assms(2)] Let_def ip_def m
        flip: t_def u0_def b0_def)
  have dd: "CHR ''.'' \<notin> set (dec_digits k)" for k
    using dec_digits_digits [of k] by auto
  have "CHR ''.'' \<notin> set (ManagedString_int v)" for v
    by (simp add: ManagedString_int_def dd)
  then have d: "CHR ''.'' \<notin> set ip" by (simp add: ip_def dd)
  have s: "ip = dec_digits (unat t div 100)" if "unat t < 1000000000"
  proof -
    have "unat (t div 1000000000) = 0" using that by (simp add: unat_div)
    then have "t div 1000000000 = 0" by (simp add: unat_eq_zero)
    then have "b0 = 0" by (simp add: b0_def)
    then have "c_div b0 100 = 0" by (simp add: c_div_def)
    moreover have "u0 = unat t" using that by (simp add: u0_def)
    ultimately show ?thesis by (simp add: ip_def)
  qed
  from r d s show ?thesis unfolding t_def by blast
qed

lemma timeStampString_divisor_1000: "timeStampString 1000 12340 = Some ''0.12''"
  by (simp add: timeStampString_def Let_def c_div_def c_mod_def ManagedString_int_def
      dec_digits.simps char_of_eq_iff padString.simps)

text \<open>
  C6. With the time unit set to seconds, the row \<open>("v", "hi")\<close> closed by endRow while the
  clock reads 12340 ms appends to the data region of a freshly formatted log the heading line
  and the row: the 26 bytes from the old end of the data are
  \<open>Time (seconds),v\<newline>12.34,hi\<newline>\<close>, the end of the data has moved forward by 26, and
  endRow returns \<open>DEVICE_OK\<close>.  endRow divides the clock by the numeric value of the
  time stamp format, which is declared in the header file of the class; the hypothesis takes for
  \<open>Seconds\<close> the value 10, that is a clock count in hundredths of a second.  For every format
  whose value is above 1 the time stamp is an integer part without a dot, a dot, and exactly two
  digits, the count modulo 100 padded with a zero; below a thousand million counts the integer
  part is the count divided by 100.
\<close>

theorem endRow_seconds_row:
  assumes "tsv Seconds = 10"
  shows "seconds_row (example_config\<lparr>timeStampValue := tsv\<rparr>)
           = Some (DEVICE_OK, 26, bytes_of (''Time (seconds),v'' @ [CHR 0x0A] @ ''12.34,hi'' @ [CHR 0x0A]))
     \<and> (\<forall>fmt now. 1 < tsv fmt \<and> (word_of_int (tsv fmt) :: u64) \<noteq> 0 \<longrightarrow>
          (\<exists>ip. timeStampString (tsv fmt) now
                  = Some (ip @ ''.'' @ two_digits (unat (now div word_of_int (tsv fmt)) mod 100))
             \<and> CHR ''.'' \<notin> set ip
             \<and> (unat (now div word_of_int (tsv fmt)) < 1000000000
                  \<longrightarrow> ip = dec_digits (unat (now div word_of_int (tsv fmt)) div 100))))"
proof (intro conjI allI impI)
  from assms show "seconds_row (example_config\<lparr>timeStampValue := tsv\<rparr>)
           = Some (DEVICE_OK, 26, bytes_of (''Time (seconds),v'' @ [CHR 0x0A] @ ''12.34,hi'' @ [CHR 0x0A]))"
    by (rule seconds_row_example)
next
  fix fmt now
  assume "1 < tsv fmt \<and> (word_of_int (tsv fmt) :: u64) \<noteq> 0"
  then have "1 < tsv fmt" and "(word_of_int (tsv fmt) :: u64) \<noteq> 0" by simp_all
  then show "\<exists>ip. timeStampString (tsv fmt) now
                  = Some (ip @ ''.'' @ two_digits (unat (now div word_of_int (tsv fmt)) mod 100))
             \<and> CHR ''.'' \<notin> set ip
             \<and> (unat (now div word_of_int (tsv fmt)) < 1000000000
                  \<longrightarrow> ip = dec_digits (unat (now div word_of_int (tsv fmt)) div 100))"
    by (rule timeStampString_fraction)
qed

theorem endRow_seconds_row_witness:
  "centi_units Seconds = 10
     \<and> seconds_row example_config
           = Some (DEVICE_OK, 26, bytes_of (''Time (seconds),v'' @ [CHR 0x0A] @ ''12.34,hi'' @ [CHR 0x0A]))
     \<and> timeStampString (centi_units Seconds) 12340 = Some ''12.34''
     \<and> timeStampString (centi_units Minutes) 754321 = Some ''12.57''"
proof -
  have s: "centi_units Seconds = 10" and m: "centi_units Minutes = 600" by (simp_all add: centi_units_def)
  have e: "example_config\<lparr>timeStampValue := centi_units\<rparr> = example_config"
    by (simp add: example_config_def)
  note t = endRow_seconds_row [of centi_units, OF s]
  from t have 1: "seconds_row example_config
           = Some (DEVICE_OK, 26, bytes_of (''Time (seconds),v'' @ [CHR 0x0A] @ ''12.34,hi'' @ [CHR 0x0A]))"
    by (simp only: e)
  have a: "unat ((12340 :: u64) div 10) = 1234" by (simp add: unat_div)
  have b: "unat ((754321 :: u64) div 600) = 1257" by (simp add: unat_div)
  have d12: "dec_digits 12 = ''12''" by (simp add: dec_digits.simps char_of_eq_iff)
  have t34: "two_digits 34 = ''34''" and t57: "two_digits 57 = ''57''"
    by (simp_all add: two_digits_def char_of_eq_iff)
  have hs: "1 < centi_units Seconds \<and> (word_of_int (centi_units Seconds) :: u64) \<noteq> 0"
    and hm: "1 < centi_units Minutes \<and> (word_of_int (centi_units Minutes) :: u64) \<noteq> 0"
    by (simp_all add: s m)
  from t [THEN conjunct2, rule_format, of Seconds 12340, OF hs]
  have 2: "timeStampString (centi_units Seconds) 12340 = Some ''12.34''"
    by (auto simp add: s a d12 t34)
  from t [THEN conjunct2, rule_format, of Minutes 754321, OF hm]
  have 3: "timeStampString (centi_units Minutes) 754321 = Some ''12.57''"
    by (auto simp add: m b d12 t57)
  from s 1 2 3 show ?thesis by simp
qed


end
